theory Spec2Isabelle
  imports Main
begin

section \<open>The key dispatcher: \<open>keydownListener\<close>\<close>

text \<open>
  The handler reads the keyboard event, the focused element, the active leaf and its view, and
  then calls host services. The model lists what the handler does, in order, as events:
  a call of \<open>e.preventDefault()\<close>, a call of a host service (an action), or the
  TypeError that JavaScript raises when a property of \<open>undefined\<close> or \<open>null\<close> is read,
  after which nothing else happens.
\<close>

record KeyboardEvent =
  key :: string
  ctrlKey :: bool
  altKey :: bool
  metaKey :: bool
  shiftKey :: bool

text \<open>\<open>document.activeElement\<close>: its tag name and the selectors the handler tests on it.\<close>

record element =
  tagName :: string
  isPromptInput :: bool          \<comment> \<open>\<open>matches('.prompt-input')\<close>\<close>
  isEditable :: bool             \<comment> \<open>\<open>matches('[class*="metadata-input"], [role="textbox"], [contenteditable="true"]')\<close>\<close>
  isPropertiesHeading :: bool    \<comment> \<open>\<open>matches('.metadata-properties-heading')\<close>\<close>
  isCmContent :: bool            \<comment> \<open>\<open>matches('.cm-content')\<close>\<close>

record fileRef =
  path :: string
  hasChildren :: bool            \<comment> \<open>\<open>file.children\<close> is set: a folder\<close>
  parentPath :: string           \<comment> \<open>\<open>file.parent.path\<close>\<close>

record treeItem =
  collapsible :: bool
  itemFile :: "fileRef option"
  innerText :: string            \<comment> \<open>\<open>innerEl.textContent\<close>\<close>

record tree =
  focusedItem :: "treeItem option"

record pane =
  inSideDock :: bool             \<comment> \<open>\<open>closest('.mod-sidedock')\<close>\<close>
  hasRenaming :: bool            \<comment> \<open>\<open>querySelector('.has-focus.is-being-renamed')\<close>\<close>
  inLeftSplit :: bool            \<comment> \<open>\<open>closest('.mod-left-split')\<close>\<close>
  inRightSplit :: bool           \<comment> \<open>\<open>closest('.mod-right-split')\<close>\<close>
  hasSortButton :: bool
  hasSearchButton :: bool
  hasCollapseAllButton :: bool
  hasExpandAllButton :: bool

text \<open>The scroll container \<open>v\<close> of a preview-like view; pixel values as integers.\<close>

record scrollEl =
  scrollTop :: int
  scrollHeight :: int
  scrollWidth :: int

record leaf =
  viewType :: string                       \<comment> \<open>\<open>view.getViewType()\<close>\<close>
  viewTree :: "tree option"                \<comment> \<open>\<open>view.tree\<close>\<close>
  containerEl :: "pane option"             \<comment> \<open>\<open>view.containerEl\<close>\<close>
  propertyFocused :: "bool option"         \<comment> \<open>\<open>view.metadataEditor?.hasPropertyFocused()\<close>\<close>
  viewMode :: string                       \<comment> \<open>\<open>view.getMode()\<close> of a markdown view\<close>
  scroller :: "scrollEl option"            \<comment> \<open>the element \<open>v\<close> the preview branch finds\<close>
  canvasSelectionSize :: nat               \<comment> \<open>\<open>view.canvas.selection.size\<close>\<close>

record env =
  activeLeaf :: "leaf option"
  activeElement :: "element option"
  popoverOrMarker :: bool                  \<comment> \<open>\<open>document.querySelector('.jl.popover, .vimium-marker')\<close>\<close>
  modConfirmation :: bool                  \<comment> \<open>\<open>document.querySelector('.mod-confirmation')\<close>\<close>
  confirmWarningButton :: bool             \<comment> \<open>\<open>'.mod-confirmation button.mod-warning'\<close> exists\<close>
  basePath :: string
  hoverPopovers :: "string list option"    \<comment> \<open>the hover-editor plugin, if installed: the file path shown
                                               by the first leaf of each active popover\<close>

datatype action =
    ClipboardWrite string
  | DispatchDocumentKey string
  | ClickTabHeader bool                    \<comment> \<open>True: previous tab, False: next tab\<close>
  | RemoveProperties
  | ClickActiveElement
  | TreeCall string
  | ToggleCollapsed
  | ExecuteCommand string
  | PaneDispatchMetaEnter
  | ClickButton string
  | CreateNew bool string                  \<comment> \<open>folder?, target path\<close>
  | Notify string
  | SetActiveLeafToPopover
  | HidePopover
  | SpawnPopover "fileRef option"
  | TreeScrollTop
  | TreeScrollBottom
  | TreeFocusFirst
  | TreeFocusLast
  | CanvasSelectFirstNode
  | CanvasPan string
  | CanvasDeleteSelection
  | CanvasStartEditing
  | ScrollByTop int
  | ScrollByLeft int
  | ViewDispatchKey string
  | PdfZoomIn
  | PdfZoomOut

datatype ev = PreventDefault | Act action | Throw

definition defaultPrevented :: "ev list \<Rightarrow> bool" where
  "defaultPrevented evs = (PreventDefault \<in> set evs)"

definition threw :: "ev list \<Rightarrow> bool" where
  "threw evs = (Throw \<in> set evs)"

fun actionsOf :: "ev list \<Rightarrow> action list" where
  "actionsOf [] = []"
| "actionsOf (Act a # evs) = a # actionsOf evs"
| "actionsOf (_ # evs) = actionsOf evs"

text \<open>
  Writing the clipboard changes neither a tree, nor a view, nor the document; every other
  action does (or asks the host to).
\<close>

fun isMutation :: "action \<Rightarrow> bool" where
  "isMutation (ClipboardWrite _) = False"
| "isMutation _ = True"

text \<open>\<open>tree.focusedItem\<close>; reading it off a missing tree is the TypeError (\<open>None\<close>).\<close>

definition focusedOf :: "leaf \<Rightarrow> treeItem option" where
  "focusedOf lf = (case viewTree lf of None \<Rightarrow> None | Some t \<Rightarrow> focusedItem t)"

text \<open>\<open>tree.focusedItem.file.path\<close>; \<open>None\<close> when a link of the chain is missing.\<close>

definition focusedFilePath :: "leaf \<Rightarrow> string option" where
  "focusedFilePath lf =
     (case focusedOf lf of None \<Rightarrow> None
      | Some it \<Rightarrow> (case itemFile it of None \<Rightarrow> None | Some f \<Rightarrow> Some (path f)))"

text \<open>\<open>text.replace(/\.md$/, '')\<close>\<close>

definition stripMd :: "string \<Rightarrow> string" where
  "stripMd s = (if 3 \<le> length s \<and> drop (length s - 3) s = ''.md'' then take (length s - 3) s else s)"

definition sidebarTypes :: "string list" where
  "sidebarTypes = [''markdown'', ''kanban'', ''canvas'', ''lineage'', ''pdf'', ''empty'', ''bases'']"

definition isTextInput :: "element \<Rightarrow> bool" where
  "isTextInput el = (tagName el \<in> set [''INPUT'', ''TEXTAREA''] \<or> isEditable el)"

text \<open>The tree-like branch (lines 783 to 938): \<open>e.preventDefault()\<close>, then the switch on the key.\<close>

definition treeKeys :: "env \<Rightarrow> leaf \<Rightarrow> pane \<Rightarrow> KeyboardEvent \<Rightarrow> ev list" where
  "treeKeys en lf pn e =
    (let k = key e; fe = (viewType lf = ''file-explorer'') in
     if k = ''h'' then (case viewTree lf of None \<Rightarrow> [] | Some t \<Rightarrow> [Act (TreeCall ''onKeyArrowLeft'')])
     else if k = ''j'' \<or> k = ''J'' then
       (case viewTree lf of None \<Rightarrow> [] | Some t \<Rightarrow> [Act (TreeCall ''onKeyArrowDown'')])
     else if k = ''k'' \<or> k = ''K'' then
       (case viewTree lf of None \<Rightarrow> [] | Some t \<Rightarrow> [Act (TreeCall ''onKeyArrowUp'')])
     else if k = ''l'' \<or> k = ''o'' then
       (case viewTree lf of None \<Rightarrow> []
        | Some t \<Rightarrow>
           (case focusedItem t of None \<Rightarrow> [Throw]
            | Some focused \<Rightarrow>
               if collapsible focused then
                 (if k = ''o'' \<or> fe then [Act ToggleCollapsed] else [Act (TreeCall ''onKeyOpen'')])
               else Act (TreeCall ''onKeyOpen'') #
                    (if fe then [Act (ExecuteCommand ''app:toggle-left-sidebar'')] else [])))
     else if k = ''L'' \<or> k = ''O'' then
       Act PaneDispatchMetaEnter #
       (if fe then [Act (ExecuteCommand ''app:toggle-left-sidebar'')] else [])
     else if k = ''d'' then
       (if fe then
          (if modConfirmation en then
             (if confirmWarningButton en then [Act (ClickButton ''.mod-confirmation button.mod-warning'')]
              else [Throw])
           else (case viewTree lf of None \<Rightarrow> [Throw]
                 | Some t \<Rightarrow> [Act (TreeCall ''handleDeleteSelectedItems'')]))
        else [])
     else if k = ''r'' then
       (if fe then
          (case viewTree lf of None \<Rightarrow> [Throw]
           | Some t \<Rightarrow> [Act (TreeCall ''handleRenameFocusedItem'')])
        else [])
     else if k = ''a'' \<or> k = ''A'' then
       (if fe then
          (case focusedOf lf of None \<Rightarrow> [Throw]
           | Some it \<Rightarrow>
              (case itemFile it of None \<Rightarrow> []
               | Some f \<Rightarrow>
                  [Act (CreateNew (shiftKey e) (if hasChildren f then path f else parentPath f))]))
        else [])
     else if k = ''P'' then
       (if fe then
          (case hoverPopovers en of None \<Rightarrow> [Throw]
           | Some ps \<Rightarrow>
              (if length ps = 1 then
                 (case focusedFilePath lf of None \<Rightarrow> [Throw]
                  | Some fp \<Rightarrow>
                     if hd ps = fp then [Act SetActiveLeafToPopover]
                     else [Act HidePopover, Act (SpawnPopover (itemFile (the (focusedOf lf))))])
               else map (\<lambda>p. Act HidePopover) ps @
                    (case focusedOf lf of None \<Rightarrow> [Throw]
                     | Some it \<Rightarrow> [Act (SpawnPopover (itemFile it))])))
        else [])
     else if k = ''y'' then
       (if fe then
          (case focusedFilePath lf of None \<Rightarrow> [Throw]
           | Some fp \<Rightarrow> [Act (ClipboardWrite (stripMd fp)), Act (Notify (''Yanked: '' @ stripMd fp))])
        else
          (case focusedOf lf of None \<Rightarrow> [Throw]
           | Some it \<Rightarrow> [Act (ClipboardWrite (innerText it)), Act (Notify (''Yanked: '' @ innerText it))]))
     else if k = ''Y'' then
       (if fe then
          (case focusedFilePath lf of None \<Rightarrow> [Throw]
           | Some fp \<Rightarrow>
              [Act (ClipboardWrite (basePath en @ ''/'' @ fp)),
               Act (Notify (''Yanked: '' @ basePath en @ ''/'' @ fp))])
        else [])
     else if k = ''g'' then
       (case viewTree lf of None \<Rightarrow> [Throw] | Some t \<Rightarrow> [Act TreeScrollTop, Act TreeFocusFirst])
     else if k = ''G'' then
       (case viewTree lf of None \<Rightarrow> [Throw] | Some t \<Rightarrow> [Act TreeScrollBottom, Act TreeFocusLast])
     else if k = ''q'' then
       (if inLeftSplit pn then [Act (ExecuteCommand ''app:toggle-left-sidebar'')]
        else if inRightSplit pn then [Act (ExecuteCommand ''app:toggle-right-sidebar'')]
        else [])
     else if k = ''S'' then (if hasSortButton pn then [Act (ClickButton ''Change sort order'')] else [])
     else if k = ''/'' then (if hasSearchButton pn then [Act (ClickButton ''Show search filter'')] else [])
     else if k = ''{'' then (if hasCollapseAllButton pn then [Act (ClickButton ''Collapse all'')] else [])
     else if k = ''}'' then (if hasExpandAllButton pn then [Act (ClickButton ''Expand all'')] else [])
     else [])"

definition treeBranch :: "env \<Rightarrow> leaf \<Rightarrow> pane \<Rightarrow> KeyboardEvent \<Rightarrow> ev list" where
  "treeBranch en lf pn e = PreventDefault # treeKeys en lf pn e"

text \<open>
  The empty view (lines 939 to 950): a table from key to command. The table is an object
  literal, so \<open>commands[e.key]\<close> also finds what every object inherits (\<open>constructor\<close>,
  \<open>toString\<close>, ...); no key of a keyboard has such a name, and the table here holds the five
  entries of the literal.
\<close>

definition emptyCommands :: "string \<Rightarrow> string option" where
  "emptyCommands k =
     map_of [(''e'', ''file-explorer:new-file''),
             (''f'', ''obsidian-another-quick-switcher:search-command_recommended-search''),
             (''g'', ''omnisearch:show-modal''),
             (''r'', ''obsidian-another-quick-switcher:search-command_recent-search''),
             (''q'', ''obsidian-custom-commands:close'')] k"

definition emptyBranch :: "KeyboardEvent \<Rightarrow> ev list" where
  "emptyBranch e =
     (case emptyCommands (key e) of None \<Rightarrow> []
      | Some c \<Rightarrow> [PreventDefault, Act (ExecuteCommand c)])"

text \<open>
  The canvas view (lines 951 to 1022): the switch sets \<open>command\<close> for the navigation keys only,
  and \<open>e.preventDefault()\<close> is under \<open>if (command)\<close>.
\<close>

definition canvasMap :: "string \<Rightarrow> string option" where
  "canvasMap k =
     map_of [(''j'', ''navigate-down''), (''k'', ''navigate-up''), (''h'', ''navigate-left''),
             (''l'', ''navigate-right''), (''t'', ''create-text-node''),
             (''f'', ''create-file-node''), (''z'', ''zoom-to-selection'')] k"

definition canvasBranch :: "leaf \<Rightarrow> pane \<Rightarrow> KeyboardEvent \<Rightarrow> ev list" where
  "canvasBranch lf pn e =
    (let k = key e in
     if k \<in> set [''j'', ''k'', ''h'', ''l'', ''t'', ''f'', ''z''] then
       (if canvasSelectionSize lf = 0 then [Act CanvasSelectFirstNode] else []) @
       [PreventDefault, Act (ExecuteCommand (''advanced-canvas:'' @ the (canvasMap k)))]
     else if k \<in> set [''J'', ''K'', ''H'', ''L''] then [Act (CanvasPan k)]
     else if k = ''d'' then [Act CanvasDeleteSelection]
     else if k = ''i'' then (if canvasSelectionSize lf = 0 then [] else [Act CanvasStartEditing])
     else if k = ''/'' then (if hasSearchButton pn then [Act (ClickButton ''Show search filter'')] else [])
     else [])"

text \<open>
  The preview-like views (lines 1023 to 1118). The switch resolves at most one of a vertical
  delta, a horizontal delta, a command and a synthetic event; \<open>v!.scrollTop\<close> on a missing
  \<open>v\<close> is the TypeError. The zoom buttons of a PDF are clicked inside the switch.
\<close>

record resolved =
  top :: "int option"
  left :: "int option"
  command :: "string option"
  event :: "string option"
  clicks :: "ev list"

definition unresolved :: resolved where
  "unresolved = \<lparr> top = None, left = None, command = None, event = None, clicks = [] \<rparr>"

definition previewResolve :: "leaf \<Rightarrow> string \<Rightarrow> resolved option" where
  "previewResolve lf k =
    (if k = ''j'' then Some (unresolved\<lparr>top := Some 5\<rparr>)
     else if k = ''k'' then Some (unresolved\<lparr>top := Some (- 5)\<rparr>)
     else if k = ''d'' then Some (unresolved\<lparr>top := Some 200\<rparr>)
     else if k = ''u'' then Some (unresolved\<lparr>top := Some (- 200)\<rparr>)
     else if k = ''f'' then Some (unresolved\<lparr>event := Some ''PageDown''\<rparr>)
     else if k = ''b'' then Some (unresolved\<lparr>event := Some ''PageUp''\<rparr>)
     else if k = ''g'' then
       (case scroller lf of None \<Rightarrow> None | Some v \<Rightarrow> Some (unresolved\<lparr>top := Some (- scrollTop v)\<rparr>))
     else if k = ''G'' then
       (case scroller lf of None \<Rightarrow> None | Some v \<Rightarrow> Some (unresolved\<lparr>top := Some (scrollHeight v)\<rparr>))
     else if k = ''h'' then Some (unresolved\<lparr>left := Some (- 15)\<rparr>)
     else if k = ''H'' then
       (case scroller lf of None \<Rightarrow> None | Some v \<Rightarrow> Some (unresolved\<lparr>left := Some (- scrollWidth v)\<rparr>))
     else if k = ''l'' then Some (unresolved\<lparr>left := Some 15\<rparr>)
     else if k = ''L'' then
       (case scroller lf of None \<Rightarrow> None | Some v \<Rightarrow> Some (unresolved\<lparr>left := Some (scrollWidth v)\<rparr>))
     else if k = ''q'' \<or> k = ''i'' then
       Some (if viewType lf = ''markdown'' then unresolved\<lparr>command := Some ''markdown:toggle-preview''\<rparr>
             else unresolved)
     else if k = ''['' then Some (unresolved\<lparr>command := Some ''app:go-back''\<rparr>)
     else if k = '']'' then Some (unresolved\<lparr>command := Some ''app:go-forward''\<rparr>)
     else if k = ''/'' then Some (unresolved\<lparr>command := Some ''editor:open-search''\<rparr>)
     else if k = ''+'' then
       Some (if viewType lf = ''pdf'' then unresolved\<lparr>clicks := [Act PdfZoomIn]\<rparr> else unresolved)
     else if k = ''-'' then
       Some (if viewType lf = ''pdf'' then unresolved\<lparr>clicks := [Act PdfZoomOut]\<rparr> else unresolved)
     else Some unresolved)"

text \<open>A JavaScript number is truthy when it is set and not zero.\<close>

definition truthyNum :: "int option \<Rightarrow> bool" where
  "truthyNum n = (case n of None \<Rightarrow> False | Some x \<Rightarrow> x \<noteq> 0)"

definition previewAct :: "leaf \<Rightarrow> resolved \<Rightarrow> ev list" where
  "previewAct lf r =
    (if truthyNum (top r) then
       PreventDefault # (case scroller lf of None \<Rightarrow> [] | Some v \<Rightarrow> [Act (ScrollByTop (the (top r)))])
     else if truthyNum (left r) then
       PreventDefault # (case scroller lf of None \<Rightarrow> [] | Some v \<Rightarrow> [Act (ScrollByLeft (the (left r)))])
     else (case command r of Some c \<Rightarrow> [PreventDefault, Act (ExecuteCommand c)]
           | None \<Rightarrow>
             (case event r of
                Some ek \<Rightarrow> PreventDefault # (case scroller lf of None \<Rightarrow> [] | Some v \<Rightarrow> [Act (ViewDispatchKey ek)])
              | None \<Rightarrow> [])))"

definition previewBranch :: "env \<Rightarrow> leaf \<Rightarrow> KeyboardEvent \<Rightarrow> ev list" where
  "previewBranch en lf e =
    (if viewType lf = ''kanban'' \<and> (case activeElement en of None \<Rightarrow> False | Some el \<Rightarrow> isCmContent el)
     then []
     else (case previewResolve lf (key e) of None \<Rightarrow> [Throw]
           | Some r \<Rightarrow> clicks r @ previewAct lf r))"

definition isPreviewLike :: "leaf \<Rightarrow> bool" where
  "isPreviewLike lf =
     ((viewType lf = ''markdown'' \<and> viewMode lf = ''preview'')
      \<or> viewType lf \<in> set [''pdf'', ''kanban'', ''bases''])"

text \<open>The switch on the view type (lines 783, 939, 951, 1023).\<close>

definition mainDispatch :: "env \<Rightarrow> leaf \<Rightarrow> pane \<Rightarrow> KeyboardEvent \<Rightarrow> ev list" where
  "mainDispatch en lf pn e =
    (if viewType lf \<notin> set sidebarTypes then treeBranch en lf pn e
     else if viewType lf = ''empty'' then emptyBranch e
     else if viewType lf = ''canvas'' then canvasBranch lf pn e
     else if isPreviewLike lf then previewBranch en lf e
     else [])"

text \<open>The three shortcuts tested before the pass-through guard (lines 720, 726, 737).\<close>

definition copyPathShortcut :: "leaf \<Rightarrow> KeyboardEvent \<Rightarrow> bool" where
  "copyPathShortcut lf e = (metaKey e \<and> key e = ''c'' \<and> viewType lf = ''file-explorer'')"

definition promptShortcut :: "env \<Rightarrow> KeyboardEvent \<Rightarrow> bool" where
  "promptShortcut en e =
     ((case activeElement en of None \<Rightarrow> False | Some el \<Rightarrow> isPromptInput el)
      \<and> key e \<in> set [''j'', ''k''] \<and> ctrlKey e)"

definition sideDockShortcut :: "leaf \<Rightarrow> KeyboardEvent \<Rightarrow> bool" where
  "sideDockShortcut lf e =
     ((case containerEl lf of None \<Rightarrow> False | Some pn \<Rightarrow> inSideDock pn)
      \<and> key e \<in> set [''n'', ''p''] \<and> ctrlKey e)"

text \<open>The rest of the pass-through guard (lines 753 to 758), once the focused element is known.\<close>

definition passThrough :: "env \<Rightarrow> leaf \<Rightarrow> element \<Rightarrow> KeyboardEvent \<Rightarrow> bool" where
  "passThrough en lf el e =
     (isTextInput el
      \<or> popoverOrMarker en
      \<or> containerEl lf = None
      \<or> (case containerEl lf of None \<Rightarrow> False | Some pn \<Rightarrow> hasRenaming pn)
      \<or> ctrlKey e \<or> altKey e \<or> metaKey e)"

definition keydownListener :: "env \<Rightarrow> KeyboardEvent \<Rightarrow> ev list" where
  "keydownListener en e =
    (case activeLeaf en of None \<Rightarrow> []
     | Some lf \<Rightarrow>
        if copyPathShortcut lf e then
          (case focusedFilePath lf of None \<Rightarrow> [Throw]
           | Some fp \<Rightarrow> [Act (ClipboardWrite (basePath en @ ''/'' @ fp))])
        else if promptShortcut en e then
          [PreventDefault, Act (DispatchDocumentKey (if key e = ''j'' then ''arrowdown'' else ''arrowup''))]
        else if sideDockShortcut lf e then [Act (ClickTabHeader (key e = ''p''))]
        else
          (case activeElement en of None \<Rightarrow> [Throw]
           | Some el \<Rightarrow>
              if passThrough en lf el e then []
              else
                (case containerEl lf of None \<Rightarrow> []
                 | Some pn \<Rightarrow>
                    if propertyFocused lf = Some True then
                      (if key e = ''d'' then [Act RemoveProperties] else [])
                    else if isPropertiesHeading el then
                      (if key e = ''l'' \<or> key e = ''o'' then [Act ClickActiveElement] else [])
                    else mainDispatch en lf pn e)))"

text \<open>
  An event reaches the switch on the view type when there is an active leaf, none of the
  guards before it returns, and neither a property nor the properties heading has focus.
\<close>

definition reachesDispatch :: "env \<Rightarrow> leaf \<Rightarrow> pane \<Rightarrow> KeyboardEvent \<Rightarrow> bool" where
  "reachesDispatch en lf pn e =
     (activeLeaf en = Some lf \<and> containerEl lf = Some pn
      \<and> \<not> copyPathShortcut lf e \<and> \<not> promptShortcut en e \<and> \<not> sideDockShortcut lf e
      \<and> (case activeElement en of None \<Rightarrow> False
          | Some el \<Rightarrow> \<not> passThrough en lf el e \<and> \<not> isPropertiesHeading el)
      \<and> propertyFocused lf \<noteq> Some True)"

text \<open>The condition of the final if-chain of the preview branch (lines 1105 to 1117).\<close>

definition resolvedAction :: "resolved \<Rightarrow> bool" where
  "resolvedAction r = (truthyNum (top r) \<or> truthyNum (left r) \<or> command r \<noteq> None \<or> event r \<noteq> None)"

subsection \<open>Concrete key events\<close>

definition examplePane :: pane where
  "examplePane = \<lparr> inSideDock = False, hasRenaming = False, inLeftSplit = True,
     inRightSplit = False, hasSortButton = False, hasSearchButton = False,
     hasCollapseAllButton = False, hasExpandAllButton = False \<rparr>"

text \<open>A leaf whose view has the given type, a pane, and no tree.\<close>

definition exampleLeaf :: "string \<Rightarrow> leaf" where
  "exampleLeaf ty = \<lparr> viewType = ty, viewTree = None, containerEl = Some examplePane,
     propertyFocused = None, viewMode = ''source'', scroller = None, canvasSelectionSize = 0 \<rparr>"

definition focusOn :: "string \<Rightarrow> bool \<Rightarrow> element" where
  "focusOn tag prompt = \<lparr> tagName = tag, isPromptInput = prompt, isEditable = False,
     isPropertiesHeading = False, isCmContent = False \<rparr>"

definition exampleEnv :: "leaf \<Rightarrow> element \<Rightarrow> env" where
  "exampleEnv lf el = \<lparr> activeLeaf = Some lf, activeElement = Some el, popoverOrMarker = False,
     modConfirmation = False, confirmWarningButton = False, basePath = ''/vault'',
     hoverPopovers = None \<rparr>"

definition press :: "string \<Rightarrow> bool \<Rightarrow> KeyboardEvent" where
  "press k ctrl = \<lparr> key = k, ctrlKey = ctrl, altKey = False, metaKey = False, shiftKey = False \<rparr>"

section \<open>The poll helper: \<open>sleepUntil\<close>\<close>

text \<open>
  \<open>sleepUntil(f, timeoutMs)\<close> creates a promise and an interval timer of 20 ms. Each firing of
  the timer runs the callback of lines 38 to 47: it calls \<open>f\<close>; on a truthy value it clears
  the interval and calls \<open>resolve\<close> with the value; otherwise, when the clock shows more than
  \<open>timeoutMs\<close> since the start, it clears the interval and calls \<open>reject\<close>.

  The model keeps whether the interval is still set and the calls of \<open>resolve\<close> and
  \<open>reject\<close> made so far. A firing is a pair of the clock reading (milliseconds since
  \<open>timeWas\<close>) and the value \<open>f\<close> returns at that moment; truthiness is a parameter, since
  \<open>f\<close> may return any value. A cleared interval fires no callback.
\<close>

datatype 'v settle = Resolve 'v | Reject string

record 'v poll =
  waiting :: bool
  calls :: "'v settle list"

definition pollStart :: "'v poll" where
  "pollStart = \<lparr> waiting = True, calls = [] \<rparr>"

definition pollTick :: "('v \<Rightarrow> bool) \<Rightarrow> int \<Rightarrow> 'v poll \<Rightarrow> int \<times> 'v \<Rightarrow> 'v poll" where
  "pollTick truthy timeoutMs st firing =
     (if \<not> waiting st then st
      else if truthy (snd firing) then \<lparr> waiting = False, calls = calls st @ [Resolve (snd firing)] \<rparr>
      else if fst firing > timeoutMs then \<lparr> waiting = False, calls = calls st @ [Reject ''timed out''] \<rparr>
      else st)"

definition sleepUntil :: "('v \<Rightarrow> bool) \<Rightarrow> int \<Rightarrow> (int \<times> 'v) list \<Rightarrow> 'v poll" where
  "sleepUntil truthy timeoutMs firings = foldl (pollTick truthy timeoutMs) pollStart firings"

text \<open>The default of the second parameter: \<open>timeoutMs: number = 2000\<close>.\<close>

definition sleepUntilDefault :: "('v \<Rightarrow> bool) \<Rightarrow> (int \<times> 'v) list \<Rightarrow> 'v poll" where
  "sleepUntilDefault truthy firings = sleepUntil truthy 2000 firings"

text \<open>
  A promise takes the first call of \<open>resolve\<close> or \<open>reject\<close> and ignores later ones; it is
  pending while there is none.
\<close>

datatype 'v promise = Pending | Fulfilled 'v | Rejected string

fun promiseOf :: "'v settle list \<Rightarrow> 'v promise" where
  "promiseOf [] = Pending"
| "promiseOf (Resolve v # _) = Fulfilled v"
| "promiseOf (Reject m # _) = Rejected m"

text \<open>
  What the timer delivers: \<open>observe world ts\<close> are the firings at clock readings \<open>ts\<close> when
  \<open>f\<close> returns \<open>world t\<close> at time \<open>t\<close>; \<open>everyInterval n\<close> are the readings of the first
  \<open>n\<close> firings of a timer that is exactly on time, 20 ms apart.
\<close>

definition observe :: "(int \<Rightarrow> 'v) \<Rightarrow> int list \<Rightarrow> (int \<times> 'v) list" where
  "observe world ts = map (\<lambda>t. (t, world t)) ts"

definition everyInterval :: "nat \<Rightarrow> int list" where
  "everyInterval n = map (\<lambda>k. 20 * int k) [1..<Suc n]"

text \<open>A firing after which the callback clears the interval: a truthy value, or the timeout passed.\<close>

definition decisive :: "('v \<Rightarrow> bool) \<Rightarrow> int \<Rightarrow> int \<times> 'v \<Rightarrow> bool" where
  "decisive truthy timeoutMs firing = (truthy (snd firing) \<or> fst firing > timeoutMs)"

section \<open>The host editor\<close>

text \<open>
  The markup commands call the editor of the host: they read the cursor, the selection, a
  line or a range, and they replace a range and set the cursor. The host is not part of the
  repository; this section is the model of the calls the plugin makes. A document is its
  text, with lines separated by the newline character, and the selection is a pair of
  offsets into it (anchor and head), as in the host. A position is a line and a column; the
  plugin does arithmetic on the column, which can leave the line, so it is an integer.
  Converting a position outside the text clamps it to the end of its line (or to the end
  of the text).
\<close>

record EditorPosition =
  line :: nat
  ch :: int

record editor =
  doc :: string
  anchor :: nat
  head :: nat

definition newline :: char where
  "newline = CHR 0x0A"

text \<open>Line and column of an offset, and back.\<close>

fun offsetToLineCol :: "string \<Rightarrow> nat \<Rightarrow> nat \<times> nat" where
  "offsetToLineCol cs 0 = (0, 0)"
| "offsetToLineCol [] (Suc k) = (0, 0)"
| "offsetToLineCol (x # cs) (Suc k) =
     (case offsetToLineCol cs k of
        (l, c) \<Rightarrow> if x = newline then (Suc l, c) else if l = 0 then (0, Suc c) else (l, c))"

fun lineColToOffset :: "string \<Rightarrow> nat \<Rightarrow> nat \<Rightarrow> nat" where
  "lineColToOffset [] l c = 0"
| "lineColToOffset (x # cs) 0 0 = 0"
| "lineColToOffset (x # cs) 0 (Suc c) = (if x = newline then 0 else Suc (lineColToOffset cs 0 c))"
| "lineColToOffset (x # cs) (Suc l) c =
     Suc (if x = newline then lineColToOffset cs l c else lineColToOffset cs (Suc l) c)"

definition offsetToPos :: "string \<Rightarrow> nat \<Rightarrow> EditorPosition" where
  "offsetToPos d k = (case offsetToLineCol d k of (l, c) \<Rightarrow> \<lparr> line = l, ch = int c \<rparr>)"

definition posToOffset :: "string \<Rightarrow> EditorPosition \<Rightarrow> nat" where
  "posToOffset d p = lineColToOffset d (line p) (nat (ch p))"

definition getLine :: "string \<Rightarrow> nat \<Rightarrow> string" where
  "getLine d l = takeWhile (\<lambda>x. x \<noteq> newline) (drop (lineColToOffset d l 0) d)"

definition getCursor :: "editor \<Rightarrow> EditorPosition" where
  "getCursor e = offsetToPos (doc e) (head e)"

definition getCursorFrom :: "editor \<Rightarrow> EditorPosition" where
  "getCursorFrom e = offsetToPos (doc e) (min (anchor e) (head e))"

definition getCursorTo :: "editor \<Rightarrow> EditorPosition" where
  "getCursorTo e = offsetToPos (doc e) (max (anchor e) (head e))"

definition somethingSelected :: "editor \<Rightarrow> bool" where
  "somethingSelected e = (anchor e \<noteq> head e)"

definition textBetween :: "string \<Rightarrow> nat \<Rightarrow> nat \<Rightarrow> string" where
  "textBetween d a b = take (b - a) (drop a d)"

definition getRange :: "editor \<Rightarrow> EditorPosition \<Rightarrow> EditorPosition \<Rightarrow> string" where
  "getRange e from to = textBetween (doc e) (posToOffset (doc e) from) (posToOffset (doc e) to)"

definition getSelection :: "editor \<Rightarrow> string" where
  "getSelection e = textBetween (doc e) (min (anchor e) (head e)) (max (anchor e) (head e))"

text \<open>
  Replacing the text between the offsets \<open>a\<close> and \<open>b\<close> by \<open>n\<close> characters moves the
  offsets behind it. An offset inside the replaced text goes to its start, or to the end of
  the new text when it is associated with what follows (\<open>after\<close>); an empty selection stays
  empty, and the start of a selection that is not empty is associated with what follows.
\<close>

definition mapPos :: "nat \<Rightarrow> nat \<Rightarrow> nat \<Rightarrow> bool \<Rightarrow> nat \<Rightarrow> nat" where
  "mapPos a b n after p =
     (if p < a then p
      else if p < b \<or> (p = b \<and> \<not> after \<and> a = b) then (if p = a \<or> \<not> after then a else a + n)
      else a + n + (p - b))"

definition splice :: "string \<Rightarrow> nat \<Rightarrow> nat \<Rightarrow> string \<Rightarrow> string" where
  "splice d a b text = take a d @ text @ drop (max a b) d"

definition replaceRange :: "string \<Rightarrow> EditorPosition \<Rightarrow> EditorPosition \<Rightarrow> editor \<Rightarrow> editor" where
  "replaceRange text from to e =
     (let a = posToOffset (doc e) from; b = max a (posToOffset (doc e) to); n = length text in
      if anchor e = head e then
        \<lparr> doc = splice (doc e) a b text,
          anchor = mapPos a b n False (head e), head = mapPos a b n False (head e) \<rparr>
      else
        (let lo = mapPos a b n True (min (anchor e) (head e));
             hi = max lo (mapPos a b n False (max (anchor e) (head e)))
         in \<lparr> doc = splice (doc e) a b text,
              anchor = (if anchor e \<le> head e then lo else hi),
              head = (if anchor e \<le> head e then hi else lo) \<rparr>))"

definition setSelection :: "EditorPosition \<Rightarrow> EditorPosition \<Rightarrow> editor \<Rightarrow> editor" where
  "setSelection a h e = e\<lparr> anchor := posToOffset (doc e) a, head := posToOffset (doc e) h \<rparr>"

definition setCursor :: "EditorPosition \<Rightarrow> editor \<Rightarrow> editor" where
  "setCursor p e = setSelection p p e"

text \<open>
  \<open>editor.wordAt(pos)\<close> is the word-boundary lookup of the host: the range of the word at a
  position of a document, if there is one. It is a parameter of the commands.
\<close>

type_synonym wordLookup = "string \<Rightarrow> EditorPosition \<Rightarrow> (EditorPosition \<times> EditorPosition) option"

section \<open>The rendered line\<close>

text \<open>
  \<open>toggleStyle\<close> and \<open>toggleLink\<close> read the rendering of the host: the type of the DOM
  selection, and the element that holds the focus node with its element siblings. An
  element carries the style classes \<open>cm-strong\<close>, \<open>cm-em\<close>, ..., the class
  \<open>cm-formatting\<close> when it shows delimiter characters, its text, and the offsets of its
  extent in the document (\<open>cmView.posAtStart\<close>, \<open>cmView.posAtEnd\<close>). The rendering of a
  line is flat: \<open>closest('.cm-' + style)\<close> on the parent of the focus node is that element
  itself when it has the class, and nothing otherwise.
\<close>

datatype style = Strong | Em | Comment | Strikethrough | Highlight | InlineCode

text \<open>The table \<open>map\<close> of \<open>toggleStyle\<close> (lines 348 to 355).\<close>

fun delimiters :: "style \<Rightarrow> string \<times> string" where
  "delimiters Strong = (''**'', ''**'')"
| "delimiters Em = (''*'', ''*'')"
| "delimiters Comment = (''<!-- '', '' -->'')"
| "delimiters Strikethrough = (''~~'', ''~~'')"
| "delimiters Highlight = (''=='', ''=='')"
| "delimiters InlineCode = (''`'', ''`'')"

record span =
  classes :: "style list"
  formatting :: bool
  posAtStart :: nat
  posAtEnd :: nat
  textContent :: string

datatype selectionType = Caret | RangeSelection | NoSelection

record dom =
  selType :: selectionType          \<comment> \<open>\<open>selection.type\<close>\<close>
  siblings :: "span list"           \<comment> \<open>the elements of the line, in document order\<close>
  focus :: "nat option"             \<comment> \<open>which of them is the parent of the focus node\<close>
  inLinkOrUrl :: bool               \<comment> \<open>\<open>closest('.cm-link, .cm-url')\<close>\<close>
  inInternalLink :: bool            \<comment> \<open>\<open>closest('.cm-hmd-internal-link')\<close>\<close>

definition closestStyle :: "dom \<Rightarrow> style \<Rightarrow> nat option" where
  "closestStyle dm st =
     (case focus dm of None \<Rightarrow> None
      | Some i \<Rightarrow> if i < length (siblings dm) \<and> st \<in> set (classes (siblings dm ! i)) then Some i else None)"

text \<open>
  \<open>xs[j]?.matches('.cm-' + style + '.cm-formatting')\<close> (\<open>fmt\<close> true) or
  \<open>xs[j]?.matches('.cm-' + style + ':not(.cm-formatting)')\<close> (\<open>fmt\<close> false).
\<close>

definition matchesAt :: "span list \<Rightarrow> nat \<Rightarrow> style \<Rightarrow> bool \<Rightarrow> bool" where
  "matchesAt xs j st fmt = (j < length xs \<and> st \<in> set (classes (xs ! j)) \<and> formatting (xs ! j) = fmt)"

text \<open>The array \<open>range\<close> of lines 363 to 403: the node, and two siblings when they complete it.\<close>

definition collectRange :: "span list \<Rightarrow> nat \<Rightarrow> style \<Rightarrow> span list" where
  "collectRange xs i st =
     (if formatting (xs ! i) then
        (if matchesAt xs (i + 1) st False \<and> matchesAt xs (i + 2) st True
         then [xs ! i, xs ! (i + 1), xs ! (i + 2)]
         else if 1 \<le> i \<and> matchesAt xs (i - 1) st False \<and> 2 \<le> i \<and> matchesAt xs (i - 2) st True
         then [xs ! i, xs ! (i - 1), xs ! (i - 2)]
         else [xs ! i])
      else if 1 \<le> i \<and> matchesAt xs (i - 1) st True \<and> matchesAt xs (i + 1) st True
      then [xs ! i, xs ! (i - 1), xs ! (i + 1)]
      else [xs ! i])"

section \<open>The markup commands\<close>

subsection \<open>\<open>toggleStyle\<close>\<close>

text \<open>
  \<open>text.replace(/^<!-- *| *-->$/g, '')\<close>: the first alternative can match at the start
  only, and takes \<open><!--\<close> with the blanks after it; the second matches the blanks before a
  final \<open>-->\<close> and that marker, at the leftmost place from which they reach the end.
\<close>

definition blank :: "char \<Rightarrow> bool" where
  "blank c = (c = CHR '' '')"

definition stripTrail :: "string \<Rightarrow> string" where
  "stripTrail t =
     (if 3 \<le> length t \<and> drop (length t - 3) t = ''-->''
      then rev (dropWhile blank (rev (take (length t - 3) t)))
      else t)"

definition stripComment :: "string \<Rightarrow> string" where
  "stripComment s = stripTrail (if take 4 s = ''<!--'' then dropWhile blank (drop 4 s) else s)"

text \<open>The wrap of lines 426 to 442, for a caret: around the word at the cursor, if any.\<close>

definition wrapWord :: "wordLookup \<Rightarrow> editor \<Rightarrow> style \<Rightarrow> editor" where
  "wrapWord wordAt e st =
     (let cursor = getCursor e in
      case wordAt (doc e) cursor of
        None \<Rightarrow> e
      | Some (wfrom, wto) \<Rightarrow>
          (let text = getRange e wfrom wto;
               e' = replaceRange (fst (delimiters st) @ text @ snd (delimiters st)) wfrom wto e
           in setCursor (cursor\<lparr> ch := ch cursor + int (length (fst (delimiters st))) \<rparr>) e'))"

text \<open>The wrap of lines 432 to 440, for a selection that is not a caret.\<close>

definition wrapRange :: "editor \<Rightarrow> style \<Rightarrow> editor" where
  "wrapRange e st =
     (let text = getRange e (getCursorFrom e) (getCursorTo e)
      in replaceRange (fst (delimiters st) @ text @ snd (delimiters st)) (getCursorFrom e) (getCursorTo e) e)"

text \<open>The collapse of lines 404 to 423, on the three views sorted by their start.\<close>

definition collapseRange :: "editor \<Rightarrow> span list \<Rightarrow> editor" where
  "collapseRange e rng =
     (let r = sort_key posAtStart rng; r0 = r ! 0; r1 = r ! 1; r2 = r ! 2;
          cursor = getCursor e;
          pfrom = offsetToPos (doc e) (posAtStart r0);
          pto = offsetToPos (doc e) (posAtEnd r2);
          newOffset = min (max (int (posToOffset (doc e) cursor) - int (length (textContent r0)))
                              (int (posAtStart r0)))
                          (int (posAtStart r2) - int (length (textContent r0)));
          e' = replaceRange (textContent r1) pfrom pto e
      in setCursor (offsetToPos (doc e') (nat newOffset)) e')"

text \<open>The comment case of lines 364 to 376.\<close>

definition collapseComment :: "editor \<Rightarrow> span \<Rightarrow> editor" where
  "collapseComment e node =
     (let pfrom = offsetToPos (doc e) (posAtStart node);
          pto = offsetToPos (doc e) (posAtEnd node)
      in replaceRange (stripComment (getRange e pfrom pto)) pfrom pto e)"

definition toggleStyle :: "wordLookup \<Rightarrow> dom \<Rightarrow> editor \<Rightarrow> style \<Rightarrow> editor" where
  "toggleStyle wordAt dm e st =
     (if selType dm = Caret then
        (case closestStyle dm st of
           None \<Rightarrow> wrapWord wordAt e st
         | Some i \<Rightarrow>
            if st = Comment then collapseComment e (siblings dm ! i)
            else if length (collectRange (siblings dm) i st) = 3
            then collapseRange e (collectRange (siblings dm) i st)
            else wrapWord wordAt e st)
      else wrapRange e st)"

subsection \<open>\<open>wrapSelection\<close> and \<open>toggleTag\<close>\<close>

text \<open>
  \<open>wrapSelection\<close> (lines 263 to 285) returns the selection to set, unless something is
  selected after the replacement.
\<close>

definition wrapSelection ::
  "string \<Rightarrow> string \<Rightarrow> wordLookup \<Rightarrow> editor \<Rightarrow> editor \<times> (EditorPosition \<times> EditorPosition) option" where
  "wrapSelection beforeStr afterStr wordAt e =
     (let pos = getCursor e;
          word = (if somethingSelected e then None else wordAt (doc e) pos);
          pos' = (if somethingSelected e then pos else pos\<lparr> ch := ch pos + int (length beforeStr) \<rparr>);
          selection = (case word of None \<Rightarrow> (getCursorFrom e, getCursorTo e) | Some w \<Rightarrow> w);
          selectedText = (case word of None \<Rightarrow> getSelection e | Some (wfrom, wto) \<Rightarrow> getRange e wfrom wto);
          e' = replaceRange (beforeStr @ selectedText @ afterStr) (fst selection) (snd selection) e
      in (e', if somethingSelected e' then None else Some (pos', pos')))"

text \<open>\<open>s.slice(a, b)\<close> and \<open>s.slice(a)\<close> of JavaScript: a negative index counts from the end.\<close>

definition sliceIndex :: "string \<Rightarrow> int \<Rightarrow> nat" where
  "sliceIndex s a = (if a < 0 then nat (max (int (length s) + a) 0) else min (nat a) (length s))"

definition jsSlice :: "string \<Rightarrow> int \<Rightarrow> int \<Rightarrow> string" where
  "jsSlice s a b = take (sliceIndex s b - sliceIndex s a) (drop (sliceIndex s a) s)"

definition jsSliceFrom :: "string \<Rightarrow> int \<Rightarrow> string" where
  "jsSliceFrom s a = drop (sliceIndex s a) s"

definition startsWith :: "string \<Rightarrow> string \<Rightarrow> bool" where
  "startsWith s p = (take (length p) s = p)"

text \<open>
  \<open>.*p\<close> at the start of a string: \<open>p\<close> starts at a place with no line terminator before
  it, since the dot of a pattern does not match one. Text is a list of 8-bit characters
  here, so the terminators are the line feed and the carriage return.
\<close>

definition lineTerminator :: "char \<Rightarrow> bool" where
  "lineTerminator c = (c = CHR 0x0A \<or> c = CHR 0x0D)"

fun occursIn :: "string \<Rightarrow> string \<Rightarrow> bool" where
  "occursIn p [] = (p = [])"
| "occursIn p (c # cs) = (startsWith (c # cs) p \<or> (\<not> lineTerminator c \<and> occursIn p cs))"

definition openTag :: "string \<Rightarrow> string" where
  "openTag tag = ''<'' @ tag @ ''>''"

definition closeTag :: "string \<Rightarrow> string" where
  "closeTag tag = ''</'' @ tag @ ''>''"

text \<open>
  \<open>toggleTag\<close> builds its two patterns from the tag name (lines 292 and 293):
  \<open>new RegExp(`<${tagName}>(?!.*</${tagName}>)`)\<close> and
  \<open>new RegExp(`(?!<${tagName}>.*)</${tagName}>`)\<close>. The name is pasted into the pattern as
  it is, so a character of the name that means something in a pattern is read as pattern
  syntax, and a name such as \<open>(\<close> makes the constructor throw. In a name of letters and
  digits every character stands for itself; the one command that calls \<open>toggleTag\<close> passes
  \<open>u\<close> (line 150).
\<close>

definition plainTagName :: "string \<Rightarrow> bool" where
  "plainTagName tag =
     (\<forall>c \<in> set tag. c \<in> set ''abcdefghijklmnopqrstuvwxyzABCDEFGHIJKLMNOPQRSTUVWXYZ0123456789'')"

text \<open>
  For such a name, the index of the first match of \<open>checkTagOpen\<close>, the opening tag with no
  closing tag after it that \<open>.*\<close> reaches, and of \<open>checkTagClose\<close>, the closing tag at a place
  where no opening tag starts. For other names these two functions still compare the name
  character by character, which is not what the patterns do: they are the scans of
  \<open>toggleTag\<close> for the names that satisfy \<open>plainTagName\<close> only.
\<close>

fun execTagOpen :: "string \<Rightarrow> string \<Rightarrow> nat option" where
  "execTagOpen tag [] = None"
| "execTagOpen tag (c # cs) =
     (if startsWith (c # cs) (openTag tag)
         \<and> \<not> occursIn (closeTag tag) (drop (length (openTag tag)) (c # cs))
      then Some 0
      else map_option Suc (execTagOpen tag cs))"

fun execTagClose :: "string \<Rightarrow> string \<Rightarrow> nat option" where
  "execTagClose tag [] = None"
| "execTagClose tag (c # cs) =
     (if \<not> startsWith (c # cs) (openTag tag) \<and> startsWith (c # cs) (closeTag tag)
      then Some 0
      else map_option Suc (execTagClose tag cs))"

text \<open>The two collapses of \<open>toggleTag\<close> (lines 297 to 313 and 317 to 333).\<close>

definition collapseTag :: "editor \<Rightarrow> string \<Rightarrow> int \<Rightarrow> nat \<Rightarrow> nat \<Rightarrow> int \<Rightarrow> editor" where
  "collapseTag e tag cutAt openIndex closeIndex back =
     (let pos = getCursor e; ln = getLine (doc e) (line pos);
          newStr = jsSlice ln (int openIndex + int (length (openTag tag))) (cutAt + int closeIndex);
          e' = replaceRange newStr \<lparr> line = line pos, ch = int openIndex \<rparr>
                 \<lparr> line = line pos, ch = cutAt + int closeIndex + int (length (closeTag tag)) \<rparr> e;
          pos' = pos\<lparr> ch := ch pos - back \<rparr>
      in setSelection pos' pos' e')"

definition toggleTag :: "wordLookup \<Rightarrow> editor \<Rightarrow> string \<Rightarrow> editor" where
  "toggleTag wordAt e tag =
     (let pos = getCursor e; ln = getLine (doc e) (line pos);
          cut1 = ch pos + int (length tag) + 1;
          cut2 = ch pos - int (length tag) - 1
      in case (execTagOpen tag (jsSlice ln 0 cut1), execTagClose tag (jsSliceFrom ln cut1)) of
           (Some oi, Some ci) \<Rightarrow>
             collapseTag e tag cut1 oi ci (min (ch pos - int oi) (int (length (openTag tag))))
         | _ \<Rightarrow>
            (case (execTagOpen tag (jsSlice ln 0 cut2), execTagClose tag (jsSliceFrom ln cut2)) of
               (Some oi, Some ci) \<Rightarrow>
                 collapseTag e tag cut2 oi ci
                   (max 0 (int (length tag) + 1 - int ci) + int (length (openTag tag)))
             | _ \<Rightarrow>
                (case wrapSelection (openTag tag) (closeTag tag) wordAt e of
                   (e', None) \<Rightarrow> e'
                 | (e', Some (a, h)) \<Rightarrow> setSelection a h e')))"

subsection \<open>\<open>toggleLink\<close>\<close>

text \<open>
  \<open>/\[([^\]]*)\]\([^)]*\)/\<close> at the start of a string: the text of the link and the length
  of the whole match. Neither class can step over the character that must follow it, so
  there is one way to match.
\<close>

definition matchLinkHere :: "string \<Rightarrow> (string \<times> nat) option" where
  "matchLinkHere s =
     (if startsWith s ''['' then
        (let text = takeWhile (\<lambda>c. c \<noteq> CHR '']'') (drop 1 s);
             rest = drop (1 + length text) s
         in if startsWith rest '']('' then
              (let url = takeWhile (\<lambda>c. c \<noteq> CHR '')'') (drop 2 rest);
                   rest' = drop (2 + length url) rest
               in if startsWith rest' '')'' then Some (text, length text + length url + 4) else None)
            else None)
      else None)"

text \<open>\<open>re.exec(s)\<close>: the index of the leftmost match, its group 1 and its length.\<close>

fun execLink :: "string \<Rightarrow> (nat \<times> string \<times> nat) option" where
  "execLink [] = None"
| "execLink (c # cs) =
     (case matchLinkHere (c # cs) of
        Some (text, len) \<Rightarrow> Some (0, text, len)
      | None \<Rightarrow> (case execLink cs of None \<Rightarrow> None | Some (i, text, len) \<Rightarrow> Some (Suc i, text, len)))"

text \<open>
  \<open>/\[\[(.*?)\]\]/\<close>: the lazy group ends at the first \<open>]]\<close> after the brackets.
\<close>

fun untilClose :: "string \<Rightarrow> string option" where
  "untilClose [] = None"
| "untilClose (c # cs) =
     (if startsWith (c # cs) '']]'' then Some [] else map_option ((#) c) (untilClose cs))"

definition matchWikiHere :: "string \<Rightarrow> (string \<times> nat) option" where
  "matchWikiHere s =
     (if startsWith s ''[['' then
        (case untilClose (drop 2 s) of None \<Rightarrow> None | Some text \<Rightarrow> Some (text, length text + 4))
      else None)"

fun execWiki :: "string \<Rightarrow> (nat \<times> string \<times> nat) option" where
  "execWiki [] = None"
| "execWiki (c # cs) =
     (case matchWikiHere (c # cs) of
        Some (text, len) \<Rightarrow> Some (0, text, len)
      | None \<Rightarrow> (case execWiki cs of None \<Rightarrow> None | Some (i, text, len) \<Rightarrow> Some (Suc i, text, len)))"

text \<open>\<open>match[1].split('|')[1]\<close>, used when the group has a pipe: what follows the first pipe, up to the next.\<close>

definition aliasOf :: "string \<Rightarrow> string" where
  "aliasOf t =
     (if CHR ''|'' \<in> set t
      then takeWhile (\<lambda>c. c \<noteq> CHR ''|'') (drop 1 (dropWhile (\<lambda>c. c \<noteq> CHR ''|'') t))
      else t)"

text \<open>
  A match is never empty and lies inside the string, so the loops of lines 455 to 478 and
  483 to 508, which go on behind a match that does not hold the cursor, come to an end.
\<close>

lemma startsWith_length: "startsWith s p \<Longrightarrow> length p \<le> length s"
  unfolding startsWith_def by (metis length_take min.cobounded2 min.commute)

lemma matchLinkHere_bounds:
  assumes "matchLinkHere s = Some (txt, len)"
  shows "0 < len \<and> len \<le> length s"
proof -
  let ?t = "takeWhile (\<lambda>c. c \<noteq> CHR '']'') (drop 1 s)"
  let ?rest = "drop (1 + length ?t) s"
  let ?u = "takeWhile (\<lambda>c. c \<noteq> CHR '')'') (drop 2 ?rest)"
  let ?rest' = "drop (2 + length ?u) ?rest"
  from assms have a: "startsWith ?rest' '')''" and l: "len = length ?t + length ?u + 4"
    by (auto simp: matchLinkHere_def Let_def split: if_splits)
  from startsWith_length[OF a] have "1 \<le> length ?rest'" by simp
  then have "length ?t + length ?u + 4 \<le> length s" by simp
  then show ?thesis using l by simp
qed

lemma execLink_bounds:
  "execLink s = Some (i, txt, len) \<Longrightarrow> 0 < len \<and> i + len \<le> length s"
proof (induction s arbitrary: i)
  case Nil
  then show ?case by simp
next
  case (Cons c cs)
  show ?case
  proof (cases "matchLinkHere (c # cs)")
    case None
    with Cons.prems obtain j where j: "execLink cs = Some (j, txt, len)" "i = Suc j"
      by (auto split: option.splits)
    from Cons.IH[OF j(1)] j(2) show ?thesis by simp
  next
    case (Some m)
    with Cons.prems have "m = (txt, len)" "i = 0" by (auto split: prod.splits)
    with Some matchLinkHere_bounds[of "c # cs" "txt" len] show ?thesis by simp
  qed
qed

lemma untilClose_length: "untilClose s = Some t \<Longrightarrow> length t + 2 \<le> length s"
proof (induction s arbitrary: t)
  case Nil
  then show ?case by simp
next
  case (Cons c cs)
  show ?case
  proof (cases "startsWith (c # cs) '']]''")
    case True
    then have "t = []" using Cons.prems by simp
    then show ?thesis using startsWith_length[OF True] by simp
  next
    case False
    then obtain t' where "untilClose cs = Some t'" "t = c # t'" using Cons.prems by auto
    then show ?thesis using Cons.IH[of t'] by simp
  qed
qed

lemma matchWikiHere_bounds:
  assumes "matchWikiHere s = Some (txt, len)"
  shows "0 < len \<and> len \<le> length s"
proof -
  from assms have u: "untilClose (drop 2 s) = Some txt" and l: "len = length txt + 4"
    and sw: "startsWith s ''[[''"
    by (auto simp: matchWikiHere_def split: if_splits option.splits)
  from untilClose_length[OF u] startsWith_length[OF sw] have "length txt + 4 \<le> length s" by simp
  then show ?thesis using l by simp
qed

lemma execWiki_bounds:
  "execWiki s = Some (i, txt, len) \<Longrightarrow> 0 < len \<and> i + len \<le> length s"
proof (induction s arbitrary: i)
  case Nil
  then show ?case by simp
next
  case (Cons c cs)
  show ?case
  proof (cases "matchWikiHere (c # cs)")
    case None
    with Cons.prems obtain j where j: "execWiki cs = Some (j, txt, len)" "i = Suc j"
      by (auto split: option.splits)
    from Cons.IH[OF j(1)] j(2) show ?thesis by simp
  next
    case (Some m)
    with Cons.prems have "m = (txt, len)" "i = 0" by (auto split: prod.splits)
    with Some matchWikiHere_bounds[of "c # cs" "txt" len] show ?thesis by simp
  qed
qed

text \<open>
  The loop of lines 453 to 478: the first match, from the left and without overlap, that
  holds the column \<open>c\<close> inside or at either end; its start, its group 1 and its length.
\<close>

function scanLinks :: "string \<Rightarrow> nat \<Rightarrow> int \<Rightarrow> (nat \<times> string \<times> nat) option" where
  "scanLinks s x c =
     (case execLink (drop x s) of
        None \<Rightarrow> None
      | Some (i, txt, len) \<Rightarrow>
          if (c \<ge> int (x + i) \<and> c < int (x + i + len)) \<or> (c > int (x + i) \<and> c \<le> int (x + i + len))
          then Some (x + i, txt, len)
          else scanLinks s (x + i + len) c)"
  by pat_completeness auto
termination
proof (relation "measure (\<lambda>(s, x, c). length s - x)", goal_cases)
  case 1
  show ?case by simp
next
  case (2 s0 x0 c0 m0 i0 y0 t0 l0)
  then have "execLink (drop x0 s0) = Some (i0, t0, l0)" by simp
  from execLink_bounds[OF this] have "0 < l0" "i0 + l0 \<le> length s0 - x0" by simp_all
  then show ?case by simp
qed

declare scanLinks.simps [simp del]

text \<open>The loop of lines 481 to 508, for \<open>[[target]]\<close>: the end of the match does not count.\<close>

function scanWiki :: "string \<Rightarrow> nat \<Rightarrow> int \<Rightarrow> (nat \<times> string \<times> nat) option" where
  "scanWiki s x c =
     (case execWiki (drop x s) of
        None \<Rightarrow> None
      | Some (i, txt, len) \<Rightarrow>
          if c \<ge> int (x + i) \<and> c < int (x + i + len)
          then Some (x + i, txt, len)
          else scanWiki s (x + i + len) c)"
  by pat_completeness auto
termination
proof (relation "measure (\<lambda>(s, x, c). length s - x)", goal_cases)
  case 1
  show ?case by simp
next
  case (2 s0 x0 c0 m0 i0 y0 t0 l0)
  then have "execWiki (drop x0 s0) = Some (i0, t0, l0)" by simp
  from execWiki_bounds[OF this] have "0 < l0" "i0 + l0 \<le> length s0 - x0" by simp_all
  then show ?case by simp
qed

declare scanWiki.simps [simp del]

text \<open>
  The new column of lines 465 to 471 (and 495 to 501, where the brackets are two wide): \<open>m\<close>
  is the start of the match, \<open>n\<close> the length of the text that stays, \<open>c\<close> the old column.
\<close>

definition linkCaret :: "nat \<Rightarrow> nat \<Rightarrow> int \<Rightarrow> int \<Rightarrow> int" where
  "linkCaret m n width c =
     (if c \<ge> int m + int n then int m + int n - 1
      else if c > int m + width then c - width
      else int m)"

text \<open>
  \<open>toggleLink\<close> ends with the document edited (or left alone, when no match holds the
  cursor), or hands over to the host command \<open>editor:insert-link\<close>, or fails on
  \<open>selection.focusNode.parentElement\<close> when the DOM has no selection.
\<close>

datatype linkOutcome = Edited editor | InsertLink editor | FocusTypeError

definition toggleLink :: "wordLookup \<Rightarrow> dom \<Rightarrow> editor \<Rightarrow> linkOutcome" where
  "toggleLink wordAt dm e =
     (let pos = getCursor e; s = getLine (doc e) (line pos) in
      if selType dm = NoSelection then FocusTypeError
      else if inLinkOrUrl dm then
        (case scanLinks s 0 (ch pos) of
           None \<Rightarrow> Edited e
         | Some (m, txt, len) \<Rightarrow>
             Edited (setCursor \<lparr> line = line pos, ch = linkCaret m (length txt) 1 (ch pos) \<rparr>
                      (replaceRange txt \<lparr> line = line pos, ch = int m \<rparr>
                         \<lparr> line = line pos, ch = int (m + len) \<rparr> e)))
      else if inInternalLink dm then
        (case scanWiki s 0 (ch pos) of
           None \<Rightarrow> Edited e
         | Some (m, txt, len) \<Rightarrow>
             Edited (setCursor \<lparr> line = line pos, ch = linkCaret m (length (aliasOf txt)) 2 (ch pos) \<rparr>
                      (replaceRange (aliasOf txt) \<lparr> line = line pos, ch = int m \<rparr>
                         \<lparr> line = line pos, ch = int (m + len) \<rparr> e)))
      else InsertLink
             (if selType dm = Caret then
                (case wordAt (doc e) pos of None \<Rightarrow> e | Some (wfrom, wto) \<Rightarrow> setSelection wfrom wto e)
              else e))"

subsection \<open>Concrete editors\<close>

definition editorAt :: "string \<Rightarrow> nat \<Rightarrow> nat \<Rightarrow> editor" where
  "editorAt d a h = \<lparr> doc = d, anchor = a, head = h \<rparr>"

text \<open>A lookup that finds no word, and one that finds the word between two offsets.\<close>

definition noWord :: wordLookup where
  "noWord d p = None"

definition wordBetween :: "nat \<Rightarrow> nat \<Rightarrow> wordLookup" where
  "wordBetween a b d p = Some (offsetToPos d a, offsetToPos d b)"

text \<open>A caret in text that is not marked up, and one inside a link.\<close>

definition plainCaret :: dom where
  "plainCaret = \<lparr> selType = Caret, siblings = [], focus = None, inLinkOrUrl = False, inInternalLink = False \<rparr>"

definition linkCaretDom :: dom where
  "linkCaretDom = \<lparr> selType = Caret, siblings = [], focus = None, inLinkOrUrl = True, inInternalLink = False \<rparr>"

text \<open>The rendering of \<open>**bold**\<close> at offset 2 of a line, with the focus in the \<open>i\<close>-th element.\<close>

definition boldSpans :: "span list" where
  "boldSpans =
     [\<lparr> classes = [Strong], formatting = True, posAtStart = 2, posAtEnd = 4, textContent = ''**'' \<rparr>,
      \<lparr> classes = [Strong], formatting = False, posAtStart = 4, posAtEnd = 8, textContent = ''bold'' \<rparr>,
      \<lparr> classes = [Strong], formatting = True, posAtStart = 8, posAtEnd = 10, textContent = ''**'' \<rparr>]"

definition boldDom :: "nat \<Rightarrow> dom" where
  "boldDom i = \<lparr> selType = Caret, siblings = boldSpans, focus = Some i, inLinkOrUrl = False, inInternalLink = False \<rparr>"

text \<open>The rendering of \<open><!-- bold -->\<close> at offset 2 of a line, with the focus in it.\<close>

definition commentDom :: dom where
  "commentDom =
     \<lparr> selType = Caret,
       siblings = [\<lparr> classes = [Comment], formatting = False, posAtStart = 2, posAtEnd = 15,
                     textContent = ''<!-- bold -->'' \<rparr>],
       focus = Some 0, inLinkOrUrl = False, inInternalLink = False \<rparr>"

text \<open>A selection that is not a caret.\<close>

definition rangeDom :: dom where
  "rangeDom = \<lparr> selType = RangeSelection, siblings = [], focus = None, inLinkOrUrl = False, inInternalLink = False \<rparr>"

subsection \<open>What the host shows after a wrap\<close>

text \<open>
  After \<open>toggleStyle\<close> has wrapped the word \<open>w\<close> at offset \<open>a\<close>, the host renders the line
  again. \<open>rendersConstruct dm st j a w\<close> describes the elements of the rendering \<open>dm\<close> that
  show what was written, prefix, word and suffix, as a construct of the style, from the
  \<open>j\<close>-th element of the line on, with a caret in it.

  For a comment that is one element of the class \<open>cm-comment\<close>, from \<open>a\<close> to the end of the
  suffix, which has the focus.

  For the other styles there are three elements in a row, each of the class of the style:
  a marker (\<open>cm-formatting\<close>) that holds the prefix, from \<open>a\<close>; the content, not a marker,
  that holds \<open>w\<close>; and a marker that holds the suffix. The focus is in one of the three.
  When it is in the closing marker, the two elements behind that marker are not another
  content and marker of the style: lines 378 to 385 look at the next siblings of a marker
  before lines 386 to 393 look at the previous ones.
\<close>

definition showsSpan :: "span \<Rightarrow> style \<Rightarrow> bool \<Rightarrow> nat \<Rightarrow> string \<Rightarrow> bool" where
  "showsSpan x st fmt a t =
     (st \<in> set (classes x) \<and> formatting x = fmt
      \<and> posAtStart x = a \<and> posAtEnd x = a + length t \<and> textContent x = t)"

definition rendersConstruct :: "dom \<Rightarrow> style \<Rightarrow> nat \<Rightarrow> nat \<Rightarrow> string \<Rightarrow> bool" where
  "rendersConstruct dm st j a w =
     (let xs = siblings dm; p = fst (delimiters st); s = snd (delimiters st) in
      selType dm = Caret \<and>
      (if st = Comment then
         j < length xs \<and> focus dm = Some j \<and> st \<in> set (classes (xs ! j))
         \<and> posAtStart (xs ! j) = a \<and> posAtEnd (xs ! j) = a + length p + length w + length s
       else
         j + 2 < length xs
         \<and> showsSpan (xs ! j) st True a p
         \<and> showsSpan (xs ! (j + 1)) st False (a + length p) w
         \<and> showsSpan (xs ! (j + 2)) st True (a + length p + length w) s
         \<and> (focus dm = Some j \<or> focus dm = Some (j + 1)
              \<or> (focus dm = Some (j + 2)
                  \<and> \<not> (matchesAt xs (j + 3) st False \<and> matchesAt xs (j + 4) st True)))))"

section \<open>Lemmas about the dispatcher\<close>

lemmas example_defs = examplePane_def exampleLeaf_def focusOn_def exampleEnv_def press_def

lemma reachesDispatch_keydown:
  "reachesDispatch en lf pn e \<Longrightarrow> keydownListener en e = mainDispatch en lf pn e"
  by (auto simp: reachesDispatch_def keydownListener_def split: option.splits)

lemma treeBranch_prevented: "defaultPrevented (treeBranch en lf pn e)"
  by (simp add: treeBranch_def defaultPrevented_def)

lemma canvasBranch_prevented:
  "defaultPrevented (canvasBranch lf pn e) \<longleftrightarrow> key e \<in> set [''j'', ''k'', ''h'', ''l'', ''t'', ''f'', ''z'']"
  by (simp add: canvasBranch_def defaultPrevented_def Let_def)

lemma previewAct_prevented: "defaultPrevented (previewAct lf r) \<longleftrightarrow> resolvedAction r"
  unfolding previewAct_def defaultPrevented_def resolvedAction_def
  by (cases "command r"; cases "event r"; cases "scroller lf"; simp)

lemma clicks_not_prevent:
  assumes "previewResolve lf k = Some r"
  shows "PreventDefault \<notin> set (clicks r)"
proof -
  have "case previewResolve lf k of None \<Rightarrow> True | Some r' \<Rightarrow> PreventDefault \<notin> set (clicks r')"
    by (simp add: previewResolve_def unresolved_def split: option.split)
  then show ?thesis using assms by simp
qed

lemma previewBranch_prevented:
  "defaultPrevented (previewBranch en lf e) \<longleftrightarrow>
     (\<not> (viewType lf = ''kanban'' \<and> (case activeElement en of None \<Rightarrow> False | Some el \<Rightarrow> isCmContent el))
      \<and> (case previewResolve lf (key e) of None \<Rightarrow> False | Some r \<Rightarrow> resolvedAction r))"
proof (cases "previewResolve lf (key e)")
  case None
  then show ?thesis by (simp add: previewBranch_def defaultPrevented_def)
next
  case (Some r)
  have "PreventDefault \<notin> set (clicks r)" using Some by (rule clicks_not_prevent)
  then have "defaultPrevented (clicks r @ previewAct lf r) \<longleftrightarrow> resolvedAction r"
    using previewAct_prevented[of lf r] by (simp add: defaultPrevented_def)
  then show ?thesis using Some
    by (simp add: previewBranch_def) (simp add: defaultPrevented_def)
qed

lemma previewLike_types:
  "isPreviewLike lf \<Longrightarrow> viewType lf \<in> set sidebarTypes \<and> viewType lf \<noteq> ''empty'' \<and> viewType lf \<noteq> ''canvas''"
  by (auto simp: isPreviewLike_def sidebarTypes_def)

section \<open>Lemmas about the poll helper\<close>

lemma poll_cleared: "\<not> waiting st \<Longrightarrow> foldl (pollTick truthy tm) st fs = st"
  by (induction fs) (simp_all add: pollTick_def)

lemma poll_find:
  "waiting st \<Longrightarrow> foldl (pollTick truthy tm) st fs =
     (case List.find (decisive truthy tm) fs of None \<Rightarrow> st
      | Some f \<Rightarrow> \<lparr> waiting = False,
                    calls = calls st @ [if truthy (snd f) then Resolve (snd f) else Reject ''timed out''] \<rparr>)"
proof (induction fs)
  case Nil
  then show ?case by simp
next
  case (Cons f fs)
  show ?case
  proof (cases "decisive truthy tm f")
    case True
    have v: "pollTick truthy tm st f = \<lparr> waiting = False,
        calls = calls st @ [if truthy (snd f) then Resolve (snd f) else Reject ''timed out''] \<rparr>"
      using True Cons.prems by (auto simp: pollTick_def decisive_def)
    then have "\<not> waiting (pollTick truthy tm st f)" by simp
    then have "foldl (pollTick truthy tm) (pollTick truthy tm st f) fs = pollTick truthy tm st f"
      by (rule poll_cleared)
    then show ?thesis using True v by simp
  next
    case False
    then have "pollTick truthy tm st f = st"
      using Cons.prems by (auto simp: pollTick_def decisive_def)
    then show ?thesis using False Cons by simp
  qed
qed

lemma sleepUntil_find:
  "sleepUntil truthy tm fs =
     (case List.find (decisive truthy tm) fs of None \<Rightarrow> pollStart
      | Some f \<Rightarrow> \<lparr> waiting = False,
                    calls = [if truthy (snd f) then Resolve (snd f) else Reject ''timed out''] \<rparr>)"
proof -
  have w: "waiting (pollStart :: 'a poll)" by (simp add: pollStart_def)
  show ?thesis unfolding sleepUntil_def poll_find[OF w]
    by (simp add: pollStart_def split: option.splits)
qed

lemma sleepUntil_calls_le: "length (calls (sleepUntil truthy tm fs)) \<le> 1"
  by (simp add: sleepUntil_find pollStart_def split: option.splits)

lemma sleepUntil_fulfilled:
  "promiseOf (calls (sleepUntil truthy tm fs)) = Fulfilled v \<longleftrightarrow>
     (\<exists>i<length fs. snd (fs ! i) = v \<and> truthy v
        \<and> (\<forall>j<i. \<not> truthy (snd (fs ! j)) \<and> fst (fs ! j) \<le> tm))"
proof (cases "List.find (decisive truthy tm) fs")
  case None
  then have "\<forall>f \<in> set fs. \<not> decisive truthy tm f" unfolding find_None_iff by blast
  then have "\<forall>i<length fs. \<not> truthy (snd (fs ! i))" by (auto simp: decisive_def)
  then show ?thesis using None by (auto simp: sleepUntil_find pollStart_def)
next
  case (Some f)
  then obtain i where i: "i < length fs" "decisive truthy tm (fs ! i)" "f = fs ! i"
    "\<forall>j<i. \<not> decisive truthy tm (fs ! j)"
    by (auto simp: find_Some_iff)
  show ?thesis
  proof
    assume "promiseOf (calls (sleepUntil truthy tm fs)) = Fulfilled v"
    then have "truthy (snd f) \<and> snd f = v" using Some
      by (auto simp: sleepUntil_find split: if_splits)
    then show "\<exists>i<length fs. snd (fs ! i) = v \<and> truthy v
        \<and> (\<forall>j<i. \<not> truthy (snd (fs ! j)) \<and> fst (fs ! j) \<le> tm)"
      using i by (intro exI[of _ i]) (auto simp: decisive_def)
  next
    assume "\<exists>i<length fs. snd (fs ! i) = v \<and> truthy v
        \<and> (\<forall>j<i. \<not> truthy (snd (fs ! j)) \<and> fst (fs ! j) \<le> tm)"
    then obtain k where k: "k < length fs" "snd (fs ! k) = v" "truthy v"
      "\<forall>j<k. \<not> truthy (snd (fs ! j)) \<and> fst (fs ! j) \<le> tm" by blast
    have "\<not> i < k" using k(4) i(2) by (auto simp: decisive_def)
    moreover have "\<not> k < i" using i(4) k(2,3) by (auto simp: decisive_def)
    ultimately have "k = i" by simp
    then show "promiseOf (calls (sleepUntil truthy tm fs)) = Fulfilled v"
      using Some i k by (simp add: sleepUntil_find)
  qed
qed

lemma sleepUntil_rejected:
  "promiseOf (calls (sleepUntil truthy tm fs)) = Rejected m \<longleftrightarrow>
     (m = ''timed out'' \<and>
      (\<exists>i<length fs. \<not> truthy (snd (fs ! i)) \<and> fst (fs ! i) > tm
        \<and> (\<forall>j<i. \<not> truthy (snd (fs ! j)) \<and> fst (fs ! j) \<le> tm)))"
proof (cases "List.find (decisive truthy tm) fs")
  case None
  then have "\<forall>f \<in> set fs. \<not> decisive truthy tm f" unfolding find_None_iff by blast
  then have "\<forall>i<length fs. \<not> fst (fs ! i) > tm" by (auto simp: decisive_def)
  then show ?thesis using None by (auto simp: sleepUntil_find pollStart_def)
next
  case (Some f)
  then obtain i where i: "i < length fs" "decisive truthy tm (fs ! i)" "f = fs ! i"
    "\<forall>j<i. \<not> decisive truthy tm (fs ! j)"
    by (auto simp: find_Some_iff)
  show ?thesis
  proof
    assume "promiseOf (calls (sleepUntil truthy tm fs)) = Rejected m"
    then have "\<not> truthy (snd f) \<and> m = ''timed out''" using Some
      by (auto simp: sleepUntil_find split: if_splits)
    then show "m = ''timed out'' \<and>
      (\<exists>i<length fs. \<not> truthy (snd (fs ! i)) \<and> fst (fs ! i) > tm
        \<and> (\<forall>j<i. \<not> truthy (snd (fs ! j)) \<and> fst (fs ! j) \<le> tm))"
      using i by (intro conjI exI[of _ i]) (auto simp: decisive_def)
  next
    assume "m = ''timed out'' \<and>
      (\<exists>i<length fs. \<not> truthy (snd (fs ! i)) \<and> fst (fs ! i) > tm
        \<and> (\<forall>j<i. \<not> truthy (snd (fs ! j)) \<and> fst (fs ! j) \<le> tm))"
    then obtain k where m: "m = ''timed out''" and k: "k < length fs" "\<not> truthy (snd (fs ! k))"
      "fst (fs ! k) > tm"
      "\<forall>j<k. \<not> truthy (snd (fs ! j)) \<and> fst (fs ! j) \<le> tm" by blast
    have "\<not> i < k" using k(4) i(2) by (auto simp: decisive_def)
    moreover have "\<not> k < i" using i(4) k(3) by (auto simp: decisive_def)
    ultimately have "k = i" by simp
    then show "promiseOf (calls (sleepUntil truthy tm fs)) = Rejected m"
      using Some i k m by (simp add: sleepUntil_find)
  qed
qed

lemma sleepUntil_stays_truthy:
  assumes "t0 \<le> tm" and "\<forall>t\<ge>t0. truthy (world t)" and "t1 \<in> set ts" and "t0 \<le> t1"
  shows "\<exists>v. promiseOf (calls (sleepUntil truthy tm (observe world ts))) = Fulfilled v \<and> truthy v"
proof -
  let ?fs = "observe world ts"
  have dec: "decisive truthy tm (t1, world t1)" using assms(2,4) by (simp add: decisive_def)
  have "(t1, world t1) \<in> set ?fs" using assms(3) by (auto simp: observe_def)
  then obtain f where f: "List.find (decisive truthy tm) ?fs = Some f"
    using dec by (cases "List.find (decisive truthy tm) ?fs") (auto simp: find_None_iff)
  then have "f \<in> set ?fs" "decisive truthy tm f"
    by (auto simp: find_Some_iff)
  then obtain t where t: "f = (t, world t)" by (auto simp: observe_def)
  have "truthy (world t)"
  proof (cases "t0 \<le> t")
    case True then show ?thesis using assms(2) by simp
  next
    case False
    then have "\<not> t > tm" using assms(1) by simp
    then show ?thesis using \<open>decisive truthy tm f\<close> t by (simp add: decisive_def)
  qed
  then show ?thesis using f t by (simp add: sleepUntil_find)
qed

lemma everyInterval_nth: "i < n \<Longrightarrow> everyInterval n ! i = 20 * int (Suc i)"
  unfolding everyInterval_def by (simp add: nth_map_upt del: upt_Suc)

lemma sleepUntil_default_times_out:
  assumes "\<forall>t. \<not> truthy (world t)"
  shows "promiseOf (calls (sleepUntilDefault truthy (observe world (everyInterval n)))) =
           (if n \<le> 100 then Pending else Rejected ''timed out'')"
proof -
  let ?fs = "observe world (everyInterval n)"
  have len: "length ?fs = n" by (simp add: observe_def everyInterval_def del: upt_Suc)
  have nth: "\<And>i. i < n \<Longrightarrow> ?fs ! i = (20 * int (Suc i), world (20 * int (Suc i)))"
    by (simp add: observe_def everyInterval_nth everyInterval_def del: upt_Suc)
  show ?thesis
  proof (cases "n \<le> 100")
    case True
    have "\<forall>f \<in> set ?fs. \<not> decisive truthy 2000 f"
    proof
      fix f assume "f \<in> set ?fs"
      then obtain i where "i < n" "f = ?fs ! i" using len by (metis in_set_conv_nth)
      then show "\<not> decisive truthy 2000 f" using nth[of i] assms True by (simp add: decisive_def)
    qed
    then have "List.find (decisive truthy 2000) ?fs = None" by (simp add: find_None_iff)
    then show ?thesis using True by (simp add: sleepUntilDefault_def sleepUntil_find pollStart_def)
  next
    case False
    then have i: "100 < n" by simp
    have "\<not> truthy (snd (?fs ! 100)) \<and> fst (?fs ! 100) > 2000
        \<and> (\<forall>j<100. \<not> truthy (snd (?fs ! j)) \<and> fst (?fs ! j) \<le> 2000)"
      using nth i assms by simp
    then show ?thesis using False i len
      unfolding sleepUntilDefault_def
      by (subst sleepUntil_rejected[where m = "''timed out''" and tm = 2000 and fs = ?fs, THEN iffD2]) auto
  qed
qed


section \<open>Lemmas about the editor\<close>

lemma lineColToOffset_le: "lineColToOffset d l c \<le> length d"
  by (induction d l c rule: lineColToOffset.induct) auto

lemma posToOffset_le: "posToOffset d p \<le> length d"
  by (simp add: posToOffset_def lineColToOffset_le)

lemma offsetToLineCol_append:
  "offsetToLineCol (pre @ post) (length pre) = offsetToLineCol pre (length pre)"
  by (induction pre) auto

lemma lineColToOffset_first_line:
  "newline \<notin> set mid \<Longrightarrow> lineColToOffset (mid @ post) 0 (length mid) = length mid"
proof (induction mid)
  case Nil
  then show ?case by (cases post) auto
next
  case (Cons x mid)
  then show ?case by auto
qed

lemma lineColToOffset_after:
  "offsetToLineCol pre (length pre) = (l, c) \<Longrightarrow> newline \<notin> set mid \<Longrightarrow>
   lineColToOffset (pre @ mid @ post) l (c + length mid) = length pre + length mid"
proof (induction pre arbitrary: l c)
  case Nil
  then show ?case using lineColToOffset_first_line[of mid post] by simp
next
  case (Cons x pre)
  obtain l' c' where lc: "offsetToLineCol pre (length pre) = (l', c')" by (cases "offsetToLineCol pre (length pre)")
  note ih = Cons.IH[OF lc Cons.prems(2)]
  show ?case
  proof (cases "x = newline")
    case True
    then have "l = Suc l'" "c = c'" using Cons.prems(1) lc by auto
    then show ?thesis using ih True by simp
  next
    case False
    show ?thesis
    proof (cases l')
      case 0
      then have "l = 0" "c = Suc c'" using Cons.prems(1) lc False by auto
      then show ?thesis using ih False 0 by simp
    next
      case (Suc m)
      then have "l = Suc m" "c = c'" using Cons.prems(1) lc False by auto
      then show ?thesis using ih False Suc by simp
    qed
  qed
qed

lemma posToOffset_offsetToPos:
  assumes "k \<le> length d"
  shows "posToOffset d (offsetToPos d k) = k"
proof -
  obtain l c where lc: "offsetToLineCol (take k d) (length (take k d)) = (l, c)"
    by (cases "offsetToLineCol (take k d) (length (take k d))")
  have len: "length (take k d) = k" using assms by simp
  have "offsetToLineCol (take k d @ drop k d) (length (take k d)) = (l, c)"
    using lc by (simp only: offsetToLineCol_append)
  then have o: "offsetToLineCol d k = (l, c)" using len by simp
  have "lineColToOffset (take k d @ [] @ drop k d) l (c + length ([]::string)) = length (take k d) + length ([]::string)"
    using lc by (rule lineColToOffset_after) simp
  then have "lineColToOffset d l c = k" using len by simp
  then show ?thesis using o by (simp add: posToOffset_def offsetToPos_def)
qed

text \<open>The position of an offset, moved right over text without a newline that is put in there.\<close>

lemma posToOffset_shifted:
  assumes "k \<le> length d" and "newline \<notin> set mid"
  shows "posToOffset (take k d @ mid @ post) ((offsetToPos d k)\<lparr> ch := ch (offsetToPos d k) + int (length mid) \<rparr>)
           = k + length mid"
proof -
  obtain l c where lc: "offsetToLineCol (take k d) (length (take k d)) = (l, c)"
    by (cases "offsetToLineCol (take k d) (length (take k d))")
  have len: "length (take k d) = k" using assms by simp
  have "offsetToLineCol (take k d @ drop k d) (length (take k d)) = (l, c)"
    using lc by (simp only: offsetToLineCol_append)
  then have o: "offsetToLineCol d k = (l, c)" using len by simp
  have "lineColToOffset (take k d @ mid @ post) l (c + length mid) = length (take k d) + length mid"
    using lc assms(2) by (rule lineColToOffset_after)
  then show ?thesis using o len by (simp add: posToOffset_def offsetToPos_def nat_add_distrib)
qed

lemma doc_replaceRange:
  "doc (replaceRange t f u e) = splice (doc e) (posToOffset (doc e) f) (posToOffset (doc e) u) t"
  by (simp add: replaceRange_def Let_def splice_def)

lemma doc_setSelection [simp]: "doc (setSelection a h e) = doc e"
  by (simp add: setSelection_def)

lemma doc_setCursor [simp]: "doc (setCursor p e) = doc e"
  by (simp add: setCursor_def)

lemma head_setCursor: "head (setCursor p e) = posToOffset (doc e) p"
  by (simp add: setCursor_def setSelection_def)

lemma anchor_setCursor: "anchor (setCursor p e) = posToOffset (doc e) p"
  by (simp add: setCursor_def setSelection_def)

lemma caret_replaceRange: "anchor e = head e \<Longrightarrow> anchor (replaceRange t f u e) = head (replaceRange t f u e)"
  by (simp add: replaceRange_def Let_def)

lemma splice_id: "a \<le> b \<Longrightarrow> b \<le> length d \<Longrightarrow> take a d @ textBetween d a b @ drop b d = d"
proof -
  assume ab: "a \<le> b" and "b \<le> length d"
  have "take a d @ take (b - a) (drop a d) = take b d"
    using ab by (metis le_add_diff_inverse take_add)
  then have "(take a d @ take (b - a) (drop a d)) @ drop b d = d" by simp
  then show ?thesis by (simp add: textBetween_def)
qed

lemma toggleStyle_range: "selType dm \<noteq> Caret \<Longrightarrow> toggleStyle wa dm e st = wrapRange e st"
  by (simp add: toggleStyle_def)

lemma doc_wrapRange:
  assumes "anchor e \<le> length (doc e)" and "head e \<le> length (doc e)"
  shows "doc (wrapRange e st) =
           take (min (anchor e) (head e)) (doc e) @ fst (delimiters st) @ getSelection e
             @ snd (delimiters st) @ drop (max (anchor e) (head e)) (doc e)"
proof -
  have lo: "posToOffset (doc e) (getCursorFrom e) = min (anchor e) (head e)"
    unfolding getCursorFrom_def using assms by (intro posToOffset_offsetToPos) simp
  have hi: "posToOffset (doc e) (getCursorTo e) = max (anchor e) (head e)"
    unfolding getCursorTo_def using assms by (intro posToOffset_offsetToPos) simp
  show ?thesis
    by (simp add: wrapRange_def Let_def doc_replaceRange lo hi splice_def getRange_def getSelection_def)
qed

lemma toggleStyle_no_construct:
  assumes "selType dm = Caret"
    and "\<forall>i. closestStyle dm st = Some i \<longrightarrow> st \<noteq> Comment \<and> length (collectRange (siblings dm) i st) \<noteq> 3"
  shows "toggleStyle wa dm e st = wrapWord wa e st"
  using assms by (cases "closestStyle dm st") (simp_all add: toggleStyle_def)

lemma wrapWord_no_word: "wa (doc e) (getCursor e) = None \<Longrightarrow> wrapWord wa e st = e"
  by (simp add: wrapWord_def Let_def)

lemma wrapSelection_no_word:
  assumes "anchor e = head e" and "head e \<le> length (doc e)" and "wa (doc e) (getCursor e) = None"
  shows "wrapSelection b a wa e =
           (\<lparr> doc = take (head e) (doc e) @ b @ a @ drop (head e) (doc e), anchor = head e, head = head e \<rparr>,
            Some ((getCursor e)\<lparr> ch := ch (getCursor e) + int (length b) \<rparr>,
                  (getCursor e)\<lparr> ch := ch (getCursor e) + int (length b) \<rparr>))"
proof -
  have lo: "posToOffset (doc e) (getCursorFrom e) = head e"
    unfolding getCursorFrom_def using assms by (simp add: posToOffset_offsetToPos)
  have hi: "posToOffset (doc e) (getCursorTo e) = head e"
    unfolding getCursorTo_def using assms by (simp add: posToOffset_offsetToPos)
  have sel: "getSelection e = []" using assms(1) by (simp add: getSelection_def textBetween_def)
  have r: "replaceRange (b @ a) (getCursorFrom e) (getCursorTo e) e =
      \<lparr> doc = take (head e) (doc e) @ b @ a @ drop (head e) (doc e), anchor = head e, head = head e \<rparr>"
    using assms(1) by (simp add: replaceRange_def Let_def lo hi splice_def mapPos_def)
  show ?thesis
    using assms(1,3) by (simp add: wrapSelection_def Let_def somethingSelected_def sel r)
qed

lemma collapseRange_result:
  assumes srt: "sort_key posAtStart rng = [f1, c, f2]"
    and a1: "posAtStart f1 + length (textContent f1) = posAtStart c"
    and a2: "posAtStart c + length (textContent c) = posAtStart f2"
    and a3: "posAtStart f2 \<le> posAtEnd f2"
    and a4: "posAtEnd f2 \<le> length (doc e)"
    and a5: "head e \<le> length (doc e)"
  shows "doc (collapseRange e rng) = take (posAtStart f1) (doc e) @ textContent c @ drop (posAtEnd f2) (doc e)"
    and "anchor (collapseRange e rng) = head (collapseRange e rng)"
    and "int (head (collapseRange e rng)) - int (posAtStart f1) =
           max 0 (min (int (head e) - int (posAtStart c)) (int (length (textContent c))))"
proof -
  let ?d = "doc e"
  let ?s0 = "posAtStart f1" and ?e2 = "posAtEnd f2"
  let ?no = "min (max (int (head e) - int (length (textContent f1))) (int ?s0))
                 (int (posAtStart f2) - int (length (textContent f1)))"
  let ?e' = "replaceRange (textContent c) (offsetToPos ?d ?s0) (offsetToPos ?d ?e2) e"
  have le: "?s0 \<le> ?e2" using a1 a2 a3 by simp
  have p0: "posToOffset ?d (offsetToPos ?d ?s0) = ?s0"
    using le a4 by (intro posToOffset_offsetToPos) simp
  have p2: "posToOffset ?d (offsetToPos ?d ?e2) = ?e2"
    using a4 by (intro posToOffset_offsetToPos)
  have pc: "posToOffset ?d (getCursor e) = head e"
    unfolding getCursor_def using a5 by (intro posToOffset_offsetToPos)
  have d': "doc ?e' = take ?s0 ?d @ textContent c @ drop ?e2 ?d"
    using le by (simp add: doc_replaceRange p0 p2 splice_def max_def)
  have cr: "collapseRange e rng = setCursor (offsetToPos (doc ?e') (nat ?no)) ?e'"
    by (simp add: collapseRange_def Let_def srt pc)
  show "doc (collapseRange e rng) = take ?s0 ?d @ textContent c @ drop ?e2 ?d"
    by (simp add: cr d')
  show "anchor (collapseRange e rng) = head (collapseRange e rng)"
    by (simp add: cr setCursor_def setSelection_def)
  have bound: "nat ?no \<le> length (doc ?e')"
  proof -
    have "?no \<le> int ?s0 + int (length (textContent c))" using a1 a2 by linarith
    moreover have "?s0 \<le> length ?d" using le a4 by simp
    ultimately show ?thesis by (simp add: d')
  qed
  have "head (collapseRange e rng) = nat ?no"
    by (simp add: cr head_setCursor posToOffset_offsetToPos[OF bound])
  moreover have "0 \<le> ?no" using a1 a2 by linarith
  ultimately have "int (head (collapseRange e rng)) = ?no" by simp
  then show "int (head (collapseRange e rng)) - int ?s0 =
           max 0 (min (int (head e) - int (posAtStart c)) (int (length (textContent c))))"
    using a1 a2 by linarith
qed

lemma toggleStyle_collapse:
  assumes "selType dm = Caret" and "closestStyle dm st = Some i" and "st \<noteq> Comment"
    and "sort_key posAtStart (collectRange (siblings dm) i st) = [f1, c, f2]"
  shows "toggleStyle wa dm e st = collapseRange e (collectRange (siblings dm) i st)"
proof -
  have "length (sort_key posAtStart (collectRange (siblings dm) i st)) = 3"
    by (simp only: assms(4)) simp
  then have "length (collectRange (siblings dm) i st) = 3" by simp
  then show ?thesis using assms(1-3) by (simp add: toggleStyle_def)
qed

lemma delimiters_nonempty: "fst (delimiters st) \<noteq> []"
  by (cases st) simp_all

text \<open>
  Three elements in a row, a marker, a content and a marker of the style, are what
  \<open>collectRange\<close> collects from each of them; sorted by their start they are in the order of
  the line. From the closing marker the code looks forward first, so the two elements
  behind it must not be a content and a marker of the style.
\<close>

lemma sort_three:
  assumes "posAtStart a < posAtStart b" and "posAtStart b < posAtStart c"
  shows "sort_key posAtStart [a, b, c] = [a, b, c]"
    and "sort_key posAtStart [b, a, c] = [a, b, c]"
    and "sort_key posAtStart [c, b, a] = [a, b, c]"
  using assms by simp_all

lemma collectRange_opening:
  assumes "matchesAt xs j st True" and "matchesAt xs (j + 1) st False" and "matchesAt xs (j + 2) st True"
  shows "collectRange xs j st = [xs ! j, xs ! (j + 1), xs ! (j + 2)]"
proof -
  have f: "formatting (xs ! j)" using assms(1) by (simp add: matchesAt_def)
  have fwd: "(matchesAt xs (j + 1) st False \<and> matchesAt xs (j + 2) st True) = True"
    using assms(2,3) by simp
  show ?thesis
    unfolding collectRange_def by (simp only: f fwd if_True)
qed

lemma collectRange_content:
  assumes "matchesAt xs j st True" and "matchesAt xs (j + 1) st False" and "matchesAt xs (j + 2) st True"
  shows "collectRange xs (j + 1) st = [xs ! (j + 1), xs ! j, xs ! (j + 2)]"
proof -
  have n: "j + 1 + 1 = j + 2" "j + 1 - 1 = j" by simp_all
  have f: "formatting (xs ! (j + 1)) = False" using assms(2) by (simp add: matchesAt_def)
  have both: "(1 \<le> j + 1 \<and> matchesAt xs j st True \<and> matchesAt xs (j + 2) st True) = True"
    using assms(1,3) by simp
  show ?thesis
    unfolding collectRange_def n by (simp only: f both if_True if_False)
qed

lemma collectRange_closing:
  assumes "matchesAt xs j st True" and "matchesAt xs (j + 1) st False" and "matchesAt xs (j + 2) st True"
    and "\<not> (matchesAt xs (j + 3) st False \<and> matchesAt xs (j + 4) st True)"
  shows "collectRange xs (j + 2) st = [xs ! (j + 2), xs ! (j + 1), xs ! j]"
proof -
  have n: "j + 2 + 1 = j + 3" "j + 2 + 2 = j + 4" "j + 2 - 1 = j + 1" "j + 2 - 2 = j" by simp_all
  have f: "formatting (xs ! (j + 2))" using assms(3) by (simp add: matchesAt_def)
  have fwd: "(matchesAt xs (j + 3) st False \<and> matchesAt xs (j + 4) st True) = False"
    using assms(4) by simp
  have bwd: "(1 \<le> j + 2 \<and> matchesAt xs (j + 1) st False \<and> 2 \<le> j + 2 \<and> matchesAt xs j st True) = True"
    using assms(1,2) by simp
  show ?thesis
    unfolding collectRange_def n by (simp only: f fwd bwd if_True if_False)
qed

lemma collectRange_finds_triple:
  assumes "matchesAt xs j st True" and "matchesAt xs (j + 1) st False" and "matchesAt xs (j + 2) st True"
    and "posAtStart (xs ! j) < posAtStart (xs ! (j + 1))"
    and "posAtStart (xs ! (j + 1)) < posAtStart (xs ! (j + 2))"
    and "i = j \<or> i = j + 1
         \<or> (i = j + 2 \<and> \<not> (matchesAt xs (j + 3) st False \<and> matchesAt xs (j + 4) st True))"
  shows "sort_key posAtStart (collectRange xs i st) = [xs ! j, xs ! (j + 1), xs ! (j + 2)]"
proof -
  note s3 = sort_three[OF assms(4,5)]
  from assms(6) consider (marker1) "i = j" | (inner) "i = j + 1"
    | (marker2) "i = j + 2" "\<not> (matchesAt xs (j + 3) st False \<and> matchesAt xs (j + 4) st True)"
    by blast
  then show ?thesis
  proof cases
    case marker1
    then show ?thesis using collectRange_opening[OF assms(1-3)] s3(1) by simp
  next
    case inner
    then show ?thesis using collectRange_content[OF assms(1-3)] s3(2) by simp
  next
    case marker2
    then show ?thesis using collectRange_closing[OF assms(1-3) marker2(2)] s3(3) by simp
  qed
qed

lemma closestStyle_in_triple:
  assumes "matchesAt (siblings dm) j st f0" and "matchesAt (siblings dm) (j + 1) st f1"
    and "matchesAt (siblings dm) (j + 2) st f2"
    and "focus dm = Some i" and "i = j \<or> i = j + 1 \<or> i = j + 2"
  shows "closestStyle dm st = Some i"
  using assms by (auto simp: closestStyle_def matchesAt_def)

lemma stripTrail_wrapped:
  assumes "\<forall>x \<in> set w. \<not> blank x"
  shows "stripTrail (w @ ''-->'') = w"
proof -
  have l: "length (w @ ''-->'') - 3 = length w" by simp
  have "stripTrail (w @ ''-->'') = rev (dropWhile blank (rev w))"
    unfolding stripTrail_def l by simp
  also have "\<dots> = w"
  proof (cases "rev w")
    case Nil
    then show ?thesis by simp
  next
    case (Cons x xs)
    then have "x \<in> set w" by (metis list.set_intros(1) set_rev)
    then have "\<not> blank x" using assms by simp
    then have "dropWhile blank (rev w) = rev w" using Cons by simp
    then show ?thesis by simp
  qed
  finally show ?thesis .
qed

lemma stripTrail_blank: "stripTrail (w @ '' -->'') = stripTrail (w @ ''-->'')"
proof -
  have b: "blank CHR '' ''" by (simp add: blank_def)
  have l: "length (w @ '' -->'') - 3 = length w + 1" "length (w @ ''-->'') - 3 = length w" by simp_all
  show ?thesis unfolding stripTrail_def l using b by simp
qed

lemma stripComment_wrapped:
  assumes "\<forall>x \<in> set w. \<not> blank x"
  shows "stripComment (''<!-- '' @ w @ '' -->'') = w"
proof -
  have b: "blank CHR '' ''" "\<not> blank CHR ''-''" by (simp_all add: blank_def)
  have t: "take 4 (''<!-- '' @ w @ '' -->'') = ''<!--''" by simp
  have d: "drop 4 (''<!-- '' @ w @ '' -->'') = CHR '' '' # w @ '' -->''" by simp
  show ?thesis
  proof (cases w)
    case Nil
    have "stripTrail ''-->'' = []" by (simp add: stripTrail_def)
    then show ?thesis using Nil b by (simp add: stripComment_def)
  next
    case (Cons x xs)
    then have "\<not> blank x" using assms by simp
    then have "dropWhile blank (CHR '' '' # w @ '' -->'') = w @ '' -->''" using b Cons by simp
    then have "stripComment (''<!-- '' @ w @ '' -->'') = stripTrail (w @ '' -->'')"
      unfolding stripComment_def t d by simp
    then show ?thesis using stripTrail_blank[of w] stripTrail_wrapped[OF assms] by simp
  qed
qed

lemma doc_wrapWord:
  assumes "wa (doc e) (getCursor e) = Some (wfrom, wto)"
    and "posToOffset (doc e) wfrom \<le> posToOffset (doc e) wto"
  shows "doc (wrapWord wa e st) =
           take (posToOffset (doc e) wfrom) (doc e) @ fst (delimiters st) @ getRange e wfrom wto
             @ snd (delimiters st) @ drop (posToOffset (doc e) wto) (doc e)"
  using assms by (simp add: wrapWord_def Let_def doc_replaceRange splice_def max_def)

lemma splice_wrapped:
  assumes "a \<le> b" and "b \<le> length d"
  shows "splice (take a d @ p @ textBetween d a b @ s @ drop b d) a
           (a + length p + length (textBetween d a b) + length s) (textBetween d a b) = d"
proof -
  let ?w = "textBetween d a b"
  let ?d1 = "take a d @ p @ ?w @ s @ drop b d"
  have la: "length (take a d) = a" using assms by simp
  have t: "take a ?d1 = take a d" using la by simp
  have "?d1 = (take a d @ p @ ?w @ s) @ drop b d" by simp
  moreover have "length (take a d @ p @ ?w @ s) = a + length p + length ?w + length s"
    using la by simp
  ultimately have dr: "drop (a + length p + length ?w + length s) ?d1 = drop b d"
    by (metis append_eq_conv_conj)
  have m: "max a (a + length p + length ?w + length s) = a + length p + length ?w + length s" by simp
  show ?thesis unfolding splice_def by (simp only: m t dr splice_id[OF assms])
qed

lemma textBetween_wrapped:
  assumes "a \<le> length d"
  shows "textBetween (take a d @ p @ w @ s @ r) a (a + length p + length w + length s) = p @ w @ s"
proof -
  have la: "length (take a d) = a" using assms by simp
  have "drop a (take a d @ p @ w @ s @ r) = p @ w @ s @ r" using la by simp
  then show ?thesis unfolding textBetween_def by simp
qed


lemma doc_collapseRange:
  assumes "sort_key posAtStart rng = [f1, c, f2]"
    and "posAtStart f1 \<le> length (doc e)" and "posAtEnd f2 \<le> length (doc e)"
  shows "doc (collapseRange e rng) = splice (doc e) (posAtStart f1) (posAtEnd f2) (textContent c)"
  using assms by (simp add: collapseRange_def Let_def doc_replaceRange posToOffset_offsetToPos)

lemma doc_collapseComment:
  assumes "posAtStart node \<le> length (doc e)" and "posAtEnd node \<le> length (doc e)"
  shows "doc (collapseComment e node) =
           splice (doc e) (posAtStart node) (posAtEnd node)
             (stripComment (textBetween (doc e) (posAtStart node) (posAtEnd node)))"
  using assms by (simp add: collapseComment_def Let_def doc_replaceRange getRange_def posToOffset_offsetToPos)

lemma toggleTag_wrap:
  assumes "execTagOpen tg (jsSlice (getLine (doc e) (line (getCursor e))) 0 (ch (getCursor e) + int (length tg) + 1)) = None
           \<or> execTagClose tg (jsSliceFrom (getLine (doc e) (line (getCursor e))) (ch (getCursor e) + int (length tg) + 1)) = None"
    and "execTagOpen tg (jsSlice (getLine (doc e) (line (getCursor e))) 0 (ch (getCursor e) - int (length tg) - 1)) = None
           \<or> execTagClose tg (jsSliceFrom (getLine (doc e) (line (getCursor e))) (ch (getCursor e) - int (length tg) - 1)) = None"
  shows "doc (toggleTag wa e tg) = doc (fst (wrapSelection (openTag tg) (closeTag tg) wa e))"
proof -
  obtain e' sel where w: "wrapSelection (openTag tg) (closeTag tg) wa e = (e', sel)"
    by (cases "wrapSelection (openTag tg) (closeTag tg) wa e")
  have "toggleTag wa e tg = (case sel of None \<Rightarrow> e' | Some (a, h) \<Rightarrow> setSelection a h e')"
    using assms w by (auto simp: toggleTag_def Let_def split: option.splits)
  then show ?thesis using w by (simp split: option.splits)
qed

lemma doc_wrapSelection_selected:
  assumes "somethingSelected e" and "anchor e \<le> length (doc e)" and "head e \<le> length (doc e)"
  shows "doc (fst (wrapSelection b a wa e)) =
           take (min (anchor e) (head e)) (doc e) @ b @ getSelection e @ a
             @ drop (max (anchor e) (head e)) (doc e)"
proof -
  have lo: "posToOffset (doc e) (getCursorFrom e) = min (anchor e) (head e)"
    unfolding getCursorFrom_def using assms by (intro posToOffset_offsetToPos) simp
  have hi: "posToOffset (doc e) (getCursorTo e) = max (anchor e) (head e)"
    unfolding getCursorTo_def using assms by (intro posToOffset_offsetToPos) simp
  show ?thesis using assms(1)
    by (simp add: wrapSelection_def Let_def doc_replaceRange lo hi splice_def)
qed

lemma doc_wrapSelection_word:
  assumes "\<not> somethingSelected e" and "wa (doc e) (getCursor e) = Some (wfrom, wto)"
  shows "doc (fst (wrapSelection b a wa e)) =
           take (posToOffset (doc e) wfrom) (doc e) @ b @ getRange e wfrom wto @ a
             @ drop (max (posToOffset (doc e) wfrom) (posToOffset (doc e) wto)) (doc e)"
  using assms by (simp add: wrapSelection_def Let_def doc_replaceRange splice_def)

lemma linkCaret_in_text:
  "0 < n \<Longrightarrow> int m \<le> linkCaret m n 1 c \<and> linkCaret m n 1 c \<le> int m + int n"
  by (simp add: linkCaret_def)

lemma linkCaret_empty_text: "int m \<le> c \<Longrightarrow> linkCaret m 0 1 c = int m - 1"
  by (simp add: linkCaret_def)

lemma scanLinks_holds_cursor:
  "scanLinks s x c = Some (m, t, len) \<Longrightarrow> int m \<le> c \<and> c \<le> int (m + len)"
proof (induction s x c rule: scanLinks.induct)
  case (1 s x c)
  show ?case
  proof (cases "execLink (drop x s)")
    case None
    then show ?thesis using "1.prems" by (simp add: scanLinks.simps[of s x c])
  next
    case (Some r)
    obtain i t' len' where r: "r = (i, t', len')" by (cases r)
    show ?thesis
    proof (cases "(c \<ge> int (x + i) \<and> c < int (x + i + len')) \<or> (c > int (x + i) \<and> c \<le> int (x + i + len'))")
      case True
      then have "scanLinks s x c = Some (x + i, t', len')"
        by (subst scanLinks.simps) (simp only: Some r option.case prod.case if_True)
      then show ?thesis using "1.prems" True by (simp only:) auto
    next
      case False
      then have "scanLinks s x c = scanLinks s (x + i + len') c"
        by (subst scanLinks.simps) (simp only: Some r option.case prod.case if_False)
      then show ?thesis using "1.IH"[OF Some r[symmetric] refl False] "1.prems" by simp
    qed
  qed
qed

lemma toggleLink_on_match:
  assumes "selType dm \<noteq> NoSelection" and "inLinkOrUrl dm"
    and "scanLinks (getLine (doc e) (line (getCursor e))) 0 (ch (getCursor e)) = Some (m, t, len)"
  shows "toggleLink wa dm e =
           Edited (setCursor \<lparr> line = line (getCursor e), ch = linkCaret m (length t) 1 (ch (getCursor e)) \<rparr>
                    (replaceRange t \<lparr> line = line (getCursor e), ch = int m \<rparr>
                       \<lparr> line = line (getCursor e), ch = int (m + len) \<rparr> e))"
  using assms by (simp add: toggleLink_def Let_def)

section \<open>The claims\<close>

subsection \<open>C1: the pass-through guard\<close>

text \<open>
  C1 as stated: whenever the focused element is a text input (an INPUT, a TEXTAREA, a
  metadata input, a textbox role or a contenteditable element), \<open>handleKeydown\<close> leaves
  \<open>defaultPrevented\<close> false and mutates nothing, whatever the view type and the key, with
  or without modifiers. This fails: the prompt of the command palette is an INPUT, and with
  Ctrl+j the guard of line 726, which comes before the pass-through guard, calls
  \<open>e.preventDefault()\<close> and dispatches a synthetic arrow key.
\<close>

theorem C1_counterexample:
  "isTextInput (focusOn ''INPUT'' True)
   \<and> activeElement (exampleEnv (exampleLeaf ''markdown'') (focusOn ''INPUT'' True)) = Some (focusOn ''INPUT'' True)
   \<and> defaultPrevented (keydownListener (exampleEnv (exampleLeaf ''markdown'') (focusOn ''INPUT'' True))
        (press ''j'' True))"
  by (simp add: isTextInput_def example_defs keydownListener_def copyPathShortcut_def
      promptShortcut_def defaultPrevented_def)

text \<open>
  C1, amended: when the focused element is a text input and neither the prompt shortcut
  (Ctrl+j or Ctrl+k in a prompt input) nor the side-dock shortcut (Ctrl+n or Ctrl+p in a
  side-dock pane) applies, the handler never calls \<open>preventDefault\<close> and performs no tree,
  view or document mutation, for every view type and every key; apart from the copy-path
  shortcut (Meta+c in the file explorer, which only writes the clipboard) it does nothing
  at all.
\<close>

theorem C1_pass_through:
  assumes "activeElement en = Some el" and "isTextInput el"
    and "\<not> promptShortcut en e"
    and "\<forall>lf. activeLeaf en = Some lf \<longrightarrow> \<not> sideDockShortcut lf e"
  shows "\<not> defaultPrevented (keydownListener en e)
       \<and> (\<forall>a \<in> set (actionsOf (keydownListener en e)). \<not> isMutation a)
       \<and> ((\<forall>lf. activeLeaf en = Some lf \<longrightarrow> \<not> copyPathShortcut lf e) \<longrightarrow> keydownListener en e = [])"
  using assms
  by (auto simp: keydownListener_def passThrough_def defaultPrevented_def split: option.splits)

theorem C1_pass_through_witness:
  "\<not> defaultPrevented (keydownListener (exampleEnv (exampleLeaf ''outline'') (focusOn ''TEXTAREA'' False))
        (press ''j'' False))
   \<and> keydownListener (exampleEnv (exampleLeaf ''outline'') (focusOn ''TEXTAREA'' False)) (press ''j'' False) = []"
proof -
  let ?en = "exampleEnv (exampleLeaf ''outline'') (focusOn ''TEXTAREA'' False)"
  have h1: "activeElement ?en = Some (focusOn ''TEXTAREA'' False)" by (simp add: exampleEnv_def)
  have h2: "isTextInput (focusOn ''TEXTAREA'' False)" by (simp add: isTextInput_def focusOn_def)
  have h3: "\<not> promptShortcut ?en (press ''j'' False)" by (simp add: promptShortcut_def press_def)
  have h4: "\<forall>lf. activeLeaf ?en = Some lf \<longrightarrow> \<not> sideDockShortcut lf (press ''j'' False)"
    by (simp add: sideDockShortcut_def press_def)
  have h5: "\<forall>lf. activeLeaf ?en = Some lf \<longrightarrow> \<not> copyPathShortcut lf (press ''j'' False)"
    by (simp add: copyPathShortcut_def press_def)
  show ?thesis using C1_pass_through [OF h1 h2 h3 h4] h5 by blast
qed

subsection \<open>C8: where \<open>preventDefault\<close> is called\<close>

text \<open>
  C8 as stated: for an event that reaches the switch on the view type, the tree-like branch
  and the canvas branch call \<open>preventDefault\<close> for every key, bound or not. This fails for
  the canvas: there \<open>preventDefault\<close> is under \<open>if (command)\<close>, and the key \<open>d\<close> deletes the
  selection without preventing the default.
\<close>

theorem C8_counterexample:
  "reachesDispatch (exampleEnv (exampleLeaf ''canvas'') (focusOn ''BODY'' False)) (exampleLeaf ''canvas'')
      examplePane (press ''d'' False)
   \<and> keydownListener (exampleEnv (exampleLeaf ''canvas'') (focusOn ''BODY'' False)) (press ''d'' False)
       = [Act CanvasDeleteSelection]
   \<and> \<not> defaultPrevented (keydownListener (exampleEnv (exampleLeaf ''canvas'') (focusOn ''BODY'' False))
         (press ''d'' False))"
  by (simp add: reachesDispatch_def example_defs keydownListener_def copyPathShortcut_def
      promptShortcut_def sideDockShortcut_def passThrough_def isTextInput_def mainDispatch_def
      sidebarTypes_def canvasBranch_def defaultPrevented_def)

text \<open>
  C8, amended: for an event that reaches the switch on the view type, the tree-like branch
  calls \<open>preventDefault\<close> for every key, bound or not; the canvas branch calls it exactly
  for the keys that resolve to a command (j, k, h, l, t, f, z); a preview-like branch calls
  it exactly when the key resolved to an action: a scroll delta that is not zero, a command
  or a synthetic event (and the kanban view did not return early because a card editor has
  focus).
\<close>

theorem C8_prevent_default:
  assumes "reachesDispatch en lf pn e"
  shows "(viewType lf \<notin> set sidebarTypes \<longrightarrow> defaultPrevented (keydownListener en e))
     \<and> (viewType lf = ''canvas'' \<longrightarrow>
          (defaultPrevented (keydownListener en e) \<longleftrightarrow>
             key e \<in> set [''j'', ''k'', ''h'', ''l'', ''t'', ''f'', ''z'']))
     \<and> (isPreviewLike lf \<longrightarrow>
          (defaultPrevented (keydownListener en e) \<longleftrightarrow>
             (\<not> (viewType lf = ''kanban'' \<and> (case activeElement en of None \<Rightarrow> False | Some el \<Rightarrow> isCmContent el))
              \<and> (case previewResolve lf (key e) of None \<Rightarrow> False | Some r \<Rightarrow> resolvedAction r))))"
proof -
  have k: "keydownListener en e = mainDispatch en lf pn e"
    using assms by (rule reachesDispatch_keydown)
  have t: "viewType lf \<notin> set sidebarTypes \<longrightarrow> defaultPrevented (keydownListener en e)"
    by (simp add: k mainDispatch_def treeBranch_prevented)
  have c: "viewType lf = ''canvas'' \<longrightarrow>
          (defaultPrevented (keydownListener en e) \<longleftrightarrow>
             key e \<in> set [''j'', ''k'', ''h'', ''l'', ''t'', ''f'', ''z''])"
    using canvasBranch_prevented[of lf pn e] by (simp add: k mainDispatch_def sidebarTypes_def)
  have p: "isPreviewLike lf \<longrightarrow>
          (defaultPrevented (keydownListener en e) \<longleftrightarrow>
             (\<not> (viewType lf = ''kanban'' \<and> (case activeElement en of None \<Rightarrow> False | Some el \<Rightarrow> isCmContent el))
              \<and> (case previewResolve lf (key e) of None \<Rightarrow> False | Some r \<Rightarrow> resolvedAction r)))"
  proof
    assume pl: "isPreviewLike lf"
    have "mainDispatch en lf pn e = previewBranch en lf e"
      using previewLike_types[OF pl] pl by (simp add: mainDispatch_def)
    then show "defaultPrevented (keydownListener en e) \<longleftrightarrow>
             (\<not> (viewType lf = ''kanban'' \<and> (case activeElement en of None \<Rightarrow> False | Some el \<Rightarrow> isCmContent el))
              \<and> (case previewResolve lf (key e) of None \<Rightarrow> False | Some r \<Rightarrow> resolvedAction r))"
      using previewBranch_prevented[of en lf e] by (simp add: k)
  qed
  from t c p show ?thesis by blast
qed

theorem C8_prevent_default_witness:
  "defaultPrevented (keydownListener (exampleEnv (exampleLeaf ''outline'') (focusOn ''BODY'' False))
       (press ''x'' False))
   \<and> \<not> defaultPrevented (keydownListener (exampleEnv (exampleLeaf ''canvas'') (focusOn ''BODY'' False))
       (press ''x'' False))
   \<and> defaultPrevented (keydownListener (exampleEnv (exampleLeaf ''pdf'') (focusOn ''BODY'' False))
       (press ''j'' False))"
proof -
  have r: "\<And>ty k. reachesDispatch (exampleEnv (exampleLeaf ty) (focusOn ''BODY'' False)) (exampleLeaf ty)
      examplePane (press k False)"
    by (simp add: reachesDispatch_def example_defs copyPathShortcut_def promptShortcut_def
        sideDockShortcut_def passThrough_def isTextInput_def)
  have a: "viewType (exampleLeaf ''outline'') \<notin> set sidebarTypes"
    by (simp add: example_defs sidebarTypes_def)
  have b: "viewType (exampleLeaf ''canvas'') = ''canvas''
      \<and> key (press ''x'' False) \<notin> set [''j'', ''k'', ''h'', ''l'', ''t'', ''f'', ''z'']"
    by (simp add: example_defs)
  have c: "isPreviewLike (exampleLeaf ''pdf'') \<and> viewType (exampleLeaf ''pdf'') \<noteq> ''kanban''
      \<and> (case previewResolve (exampleLeaf ''pdf'') (key (press ''j'' False)) of None \<Rightarrow> False
          | Some r \<Rightarrow> resolvedAction r)"
    by (simp add: example_defs isPreviewLike_def previewResolve_def resolvedAction_def
        unresolved_def truthyNum_def)
  show ?thesis
    using C8_prevent_default [OF r [of "''outline''" "''x''"]]
      C8_prevent_default [OF r [of "''canvas''" "''x''"]]
      C8_prevent_default [OF r [of "''pdf''" "''j''"]] a b c
    by blast
qed

subsection \<open>C9: the poll helper\<close>

text \<open>
  C9: the promise of \<open>sleepUntil(f, timeoutMs)\<close> is fulfilled with the first truthy value
  the timer callback sees, is rejected with the error \<open>timed out\<close> at the first firing where
  \<open>f\<close> is falsy and more than \<open>timeoutMs\<close> have passed, and \<open>resolve\<close> and \<open>reject\<close> are
  called at most once altogether. When \<open>f\<close> becomes truthy at a time within the timeout and
  stays truthy, the promise is fulfilled at the next firing, never rejected. With the default
  timeout of 2000 ms and a timer that fires every 20 ms, a predicate that never holds leaves
  the promise pending for 100 firings and rejects it at the 101st (2020 ms).
\<close>

theorem C9_sleepUntil:
  "length (calls (sleepUntil truthy tm fs)) \<le> 1
   \<and> (promiseOf (calls (sleepUntil truthy tm fs)) = Fulfilled v \<longleftrightarrow>
        (\<exists>i<length fs. snd (fs ! i) = v \<and> truthy v
           \<and> (\<forall>j<i. \<not> truthy (snd (fs ! j)) \<and> fst (fs ! j) \<le> tm)))
   \<and> (promiseOf (calls (sleepUntil truthy tm fs)) = Rejected m \<longleftrightarrow>
        (m = ''timed out'' \<and>
         (\<exists>i<length fs. \<not> truthy (snd (fs ! i)) \<and> fst (fs ! i) > tm
           \<and> (\<forall>j<i. \<not> truthy (snd (fs ! j)) \<and> fst (fs ! j) \<le> tm))))
   \<and> (t0 \<le> tm \<and> (\<forall>t\<ge>t0. truthy (world t)) \<and> t1 \<in> set ts \<and> t0 \<le> t1 \<longrightarrow>
        (\<exists>w. promiseOf (calls (sleepUntil truthy tm (observe world ts))) = Fulfilled w \<and> truthy w))
   \<and> ((\<forall>t. \<not> truthy (world' t)) \<longrightarrow>
        promiseOf (calls (sleepUntilDefault truthy (observe world' (everyInterval n)))) =
          (if n \<le> 100 then Pending else Rejected ''timed out''))"
proof (intro conjI impI)
  show "length (calls (sleepUntil truthy tm fs)) \<le> 1"
    by (rule sleepUntil_calls_le)
  show "promiseOf (calls (sleepUntil truthy tm fs)) = Fulfilled v \<longleftrightarrow>
        (\<exists>i<length fs. snd (fs ! i) = v \<and> truthy v
           \<and> (\<forall>j<i. \<not> truthy (snd (fs ! j)) \<and> fst (fs ! j) \<le> tm))"
    by (rule sleepUntil_fulfilled)
  show "promiseOf (calls (sleepUntil truthy tm fs)) = Rejected m \<longleftrightarrow>
        (m = ''timed out'' \<and>
         (\<exists>i<length fs. \<not> truthy (snd (fs ! i)) \<and> fst (fs ! i) > tm
           \<and> (\<forall>j<i. \<not> truthy (snd (fs ! j)) \<and> fst (fs ! j) \<le> tm)))"
    by (rule sleepUntil_rejected)
next
  assume "t0 \<le> tm \<and> (\<forall>t\<ge>t0. truthy (world t)) \<and> t1 \<in> set ts \<and> t0 \<le> t1"
  then have "t0 \<le> tm" "\<forall>t\<ge>t0. truthy (world t)" "t1 \<in> set ts" "t0 \<le> t1" by simp_all
  then show "\<exists>w. promiseOf (calls (sleepUntil truthy tm (observe world ts))) = Fulfilled w \<and> truthy w"
    by (rule sleepUntil_stays_truthy)
next
  assume "\<forall>t. \<not> truthy (world' t)"
  then show "promiseOf (calls (sleepUntilDefault truthy (observe world' (everyInterval n)))) =
          (if n \<le> 100 then Pending else Rejected ''timed out'')"
    by (rule sleepUntil_default_times_out)
qed

theorem C9_sleepUntil_witness:
  "(\<exists>w. promiseOf (calls (sleepUntil (\<lambda>x::nat. x \<noteq> 0) 2000
            (observe (\<lambda>t. if 50 \<le> t then 7 else 0) (everyInterval 5)))) = Fulfilled w \<and> w \<noteq> 0)
   \<and> promiseOf (calls (sleepUntilDefault (\<lambda>x::nat. x \<noteq> 0) (observe (\<lambda>t. 0) (everyInterval 101))))
       = Rejected ''timed out''"
proof -
  have h: "(60::int) \<in> set (everyInterval 5)"
    by (simp add: everyInterval_def upt_conv_Cons)
  have c: "(50::int) \<le> 2000 \<and> (\<forall>t\<ge>50. (if 50 \<le> t then 7 else 0) \<noteq> (0::nat))
      \<and> (60::int) \<in> set (everyInterval 5) \<and> (50::int) \<le> 60"
    using h by simp
  have d: "\<forall>t::int. \<not> (0::nat) \<noteq> 0" by simp
  have e: "\<not> (101::nat) \<le> 100" by simp
  note inst = C9_sleepUntil [of "\<lambda>x::nat. x \<noteq> 0" 2000 "[]" 0 "''x''" 50
        "\<lambda>t. if 50 \<le> t then 7 else 0" 60 "everyInterval 5" "\<lambda>t. 0" 101]
  have p1: "\<exists>w. promiseOf (calls (sleepUntil (\<lambda>x::nat. x \<noteq> 0) 2000
            (observe (\<lambda>t. if 50 \<le> t then 7 else 0) (everyInterval 5)))) = Fulfilled w \<and> w \<noteq> 0"
    using inst [THEN conjunct2, THEN conjunct2, THEN conjunct2, THEN conjunct1] c by (rule mp)
  have "promiseOf (calls (sleepUntilDefault (\<lambda>x::nat. x \<noteq> 0) (observe (\<lambda>t. 0) (everyInterval 101))))
       = (if (101::nat) \<le> 100 then Pending else Rejected ''timed out'')"
    using inst [THEN conjunct2, THEN conjunct2, THEN conjunct2, THEN conjunct2] d by (rule mp)
  then have p2: "promiseOf (calls (sleepUntilDefault (\<lambda>x::nat. x \<noteq> 0) (observe (\<lambda>t. 0) (everyInterval 101))))
       = Rejected ''timed out''"
    using e by (simp only: if_False)
  from p1 p2 show ?thesis by (rule conjI)
qed

subsection \<open>C10: keys of the tree-like branch on a view without a tree\<close>

text \<open>
  C10: in the tree-like branch, on a view that has no \<open>tree\<close>, the keys h, j, J, k and K do
  nothing beyond the \<open>preventDefault\<close> every key of the branch gets (the calls are behind
  \<open>tree?.\<close>), while g and G read \<open>tree.containerEl\<close> unguarded and raise a TypeError.
\<close>

theorem C10_treeless:
  assumes "reachesDispatch en lf pn e" and "viewType lf \<notin> set sidebarTypes" and "viewTree lf = None"
  shows "(key e \<in> set [''h'', ''j'', ''J'', ''k'', ''K''] \<longrightarrow> keydownListener en e = [PreventDefault])
       \<and> (key e \<in> set [''g'', ''G''] \<longrightarrow> keydownListener en e = [PreventDefault, Throw])"
proof -
  have k: "keydownListener en e = PreventDefault # treeKeys en lf pn e"
    using reachesDispatch_keydown[OF assms(1)] assms(2) by (simp add: mainDispatch_def treeBranch_def)
  show ?thesis using assms(3) by (auto simp: k treeKeys_def Let_def)
qed

theorem C10_treeless_witness:
  "keydownListener (exampleEnv (exampleLeaf ''outline'') (focusOn ''BODY'' False)) (press ''j'' False)
     = [PreventDefault]
   \<and> keydownListener (exampleEnv (exampleLeaf ''outline'') (focusOn ''BODY'' False)) (press ''g'' False)
     = [PreventDefault, Throw]"
proof -
  have r: "\<And>k. reachesDispatch (exampleEnv (exampleLeaf ''outline'') (focusOn ''BODY'' False))
      (exampleLeaf ''outline'') examplePane (press k False)"
    by (simp add: reachesDispatch_def example_defs copyPathShortcut_def promptShortcut_def
        sideDockShortcut_def passThrough_def isTextInput_def)
  have a: "viewType (exampleLeaf ''outline'') \<notin> set sidebarTypes \<and> viewTree (exampleLeaf ''outline'') = None"
    by (simp add: example_defs sidebarTypes_def)
  show ?thesis
    using C10_treeless [OF r [of "''j''"]] C10_treeless [OF r [of "''g''"]] a
    by (simp add: press_def)
qed

subsection \<open>C4: a selection is wrapped without looking at it\<close>

text \<open>
  C4: when the selection is not a caret, \<open>toggleStyle\<close> replaces the selected range by the
  prefix, the selected text as it is, and the suffix. The rendering of the line plays no
  part: the result is the same for every rendering, so a selection that reads \<open>**x**\<close>
  is wrapped once more.
\<close>

theorem C4_selection_wraps:
  assumes "selType dm \<noteq> Caret" and "anchor e \<le> length (doc e)" and "head e \<le> length (doc e)"
  shows "doc (toggleStyle wa dm e st) =
           take (min (anchor e) (head e)) (doc e) @ fst (delimiters st) @ getSelection e
             @ snd (delimiters st) @ drop (max (anchor e) (head e)) (doc e)"
  using assms by (simp add: toggleStyle_range doc_wrapRange)

theorem C4_selection_wraps_witness:
  "doc (toggleStyle noWord rangeDom (editorAt ''**x**'' 0 5) Strong) = ''****x****''"
proof -
  have a: "selType rangeDom \<noteq> Caret" by (simp add: rangeDom_def)
  have b: "anchor (editorAt ''**x**'' 0 5) \<le> length (doc (editorAt ''**x**'' 0 5))"
    by (simp add: editorAt_def)
  have c: "head (editorAt ''**x**'' 0 5) \<le> length (doc (editorAt ''**x**'' 0 5))"
    by (simp add: editorAt_def)
  show ?thesis
    using C4_selection_wraps [OF a b c, of noWord Strong]
    by (simp add: editorAt_def getSelection_def textBetween_def)
qed

subsection \<open>C3: a caret with no construct and no word\<close>

text \<open>
  C3 as stated: with a caret, no construct of the style around it and no word at the caret,
  \<open>toggleStyle\<close> inserts the prefix and the suffix at the caret and leaves the caret
  between them. This fails: \<open>toggleStyle\<close> returns at \<open>if (!wordAt) return\<close> (line 427)
  before it edits anything. On an empty line, toggling \<open>em\<close> leaves the line empty.
\<close>

theorem C3_counterexample:
  "selType plainCaret = Caret \<and> closestStyle plainCaret Em = None
   \<and> noWord (doc (editorAt [] 0 0)) (getCursor (editorAt [] 0 0)) = None
   \<and> toggleStyle noWord plainCaret (editorAt [] 0 0) Em = editorAt [] 0 0
   \<and> doc (toggleStyle noWord plainCaret (editorAt [] 0 0) Em) \<noteq> ''**''"
  by (simp add: plainCaret_def closestStyle_def noWord_def toggleStyle_def wrapWord_def editorAt_def)

text \<open>
  C3, amended: with a caret, no construct of the style detected and no word at the caret,
  \<open>toggleStyle\<close> returns without changing the document or the selection. The empty pair
  is what \<open>wrapSelection\<close>, the wrap of \<open>toggleTag\<close>, produces in that situation: it
  inserts the prefix and the suffix at the caret, and the position it returns for the new
  selection lies between the two (for a prefix without a newline).
\<close>

theorem C3_no_word:
  assumes "selType dm = Caret"
    and "\<forall>i. closestStyle dm st = Some i \<longrightarrow> st \<noteq> Comment \<and> length (collectRange (siblings dm) i st) \<noteq> 3"
    and "wa (doc e) (getCursor e) = None"
  shows "toggleStyle wa dm e st = e
       \<and> (anchor e = head e \<and> head e \<le> length (doc e) \<and> newline \<notin> set b \<longrightarrow>
            (case wrapSelection b a wa e of
               (e', sel) \<Rightarrow>
                 doc e' = take (head e) (doc e) @ b @ a @ drop (head e) (doc e)
                 \<and> sel = Some ((getCursor e)\<lparr> ch := ch (getCursor e) + int (length b) \<rparr>,
                               (getCursor e)\<lparr> ch := ch (getCursor e) + int (length b) \<rparr>)
                 \<and> posToOffset (doc e') ((getCursor e)\<lparr> ch := ch (getCursor e) + int (length b) \<rparr>)
                     = head e + length b))"
proof (intro conjI impI)
  show "toggleStyle wa dm e st = e"
    using toggleStyle_no_construct[OF assms(1,2), of wa e] wrapWord_no_word[of wa e st, OF assms(3)] by simp
next
  assume h: "anchor e = head e \<and> head e \<le> length (doc e) \<and> newline \<notin> set b"
  then have w: "wrapSelection b a wa e =
           (\<lparr> doc = take (head e) (doc e) @ b @ a @ drop (head e) (doc e), anchor = head e, head = head e \<rparr>,
            Some ((getCursor e)\<lparr> ch := ch (getCursor e) + int (length b) \<rparr>,
                  (getCursor e)\<lparr> ch := ch (getCursor e) + int (length b) \<rparr>))"
    using assms(3) by (intro wrapSelection_no_word) simp_all
  have p: "posToOffset (take (head e) (doc e) @ b @ (a @ drop (head e) (doc e)))
             ((offsetToPos (doc e) (head e))\<lparr> ch := ch (offsetToPos (doc e) (head e)) + int (length b) \<rparr>)
           = head e + length b"
    using h by (intro posToOffset_shifted) simp_all
  show "case wrapSelection b a wa e of
               (e', sel) \<Rightarrow>
                 doc e' = take (head e) (doc e) @ b @ a @ drop (head e) (doc e)
                 \<and> sel = Some ((getCursor e)\<lparr> ch := ch (getCursor e) + int (length b) \<rparr>,
                               (getCursor e)\<lparr> ch := ch (getCursor e) + int (length b) \<rparr>)
                 \<and> posToOffset (doc e') ((getCursor e)\<lparr> ch := ch (getCursor e) + int (length b) \<rparr>)
                     = head e + length b"
    using p by (simp add: w getCursor_def)
qed

theorem C3_no_word_witness:
  "toggleStyle noWord plainCaret (editorAt [] 0 0) Em = editorAt [] 0 0
   \<and> fst (wrapSelection ''*'' ''*'' noWord (editorAt [] 0 0)) = editorAt ''**'' 0 0
   \<and> posToOffset ''**'' ((getCursor (editorAt [] 0 0))\<lparr> ch := ch (getCursor (editorAt [] 0 0)) + 1 \<rparr>) = 1"
proof -
  have a: "selType plainCaret = Caret" by (simp add: plainCaret_def)
  have b: "\<forall>i. closestStyle plainCaret Em = Some i \<longrightarrow>
      Em \<noteq> Comment \<and> length (collectRange (siblings plainCaret) i Em) \<noteq> 3"
    by (simp add: plainCaret_def closestStyle_def)
  have c: "noWord (doc (editorAt [] 0 0)) (getCursor (editorAt [] 0 0)) = None" by (simp add: noWord_def)
  have d: "anchor (editorAt [] 0 0) = head (editorAt [] 0 0)
      \<and> head (editorAt [] 0 0) \<le> length (doc (editorAt [] 0 0)) \<and> newline \<notin> set ''*''"
    by (simp add: editorAt_def newline_def)
  note inst = C3_no_word [where dm = plainCaret and st = Em and wa = noWord and e = "editorAt [] 0 0"
      and b = "''*''" and a = "''*''", OF a b c]
  from inst have t: "toggleStyle noWord plainCaret (editorAt [] 0 0) Em = editorAt [] 0 0" by (rule conjunct1)
  from inst [THEN conjunct2] d
  have w: "case wrapSelection ''*'' ''*'' noWord (editorAt [] 0 0) of
       (e', sel) \<Rightarrow>
         doc e' = take (head (editorAt [] 0 0)) (doc (editorAt [] 0 0)) @ ''*'' @ ''*'' @
                  drop (head (editorAt [] 0 0)) (doc (editorAt [] 0 0))
         \<and> sel = Some ((getCursor (editorAt [] 0 0))\<lparr> ch := ch (getCursor (editorAt [] 0 0)) + int (length ''*'') \<rparr>,
                       (getCursor (editorAt [] 0 0))\<lparr> ch := ch (getCursor (editorAt [] 0 0)) + int (length ''*'') \<rparr>)
         \<and> posToOffset (doc e') ((getCursor (editorAt [] 0 0))\<lparr> ch := ch (getCursor (editorAt [] 0 0)) + int (length ''*'') \<rparr>)
             = head (editorAt [] 0 0) + length ''*''"
    by (rule mp)
  have f: "fst (wrapSelection ''*'' ''*'' noWord (editorAt [] 0 0)) = editorAt ''**'' 0 0"
    by (simp add: wrapSelection_def Let_def somethingSelected_def editorAt_def noWord_def
        getCursor_def getCursorFrom_def getCursorTo_def getSelection_def textBetween_def
        replaceRange_def offsetToPos_def posToOffset_def splice_def mapPos_def)
  from w f have "posToOffset ''**'' ((getCursor (editorAt [] 0 0))\<lparr> ch := ch (getCursor (editorAt [] 0 0)) + 1 \<rparr>) = 1"
    by (cases "wrapSelection ''*'' ''*'' noWord (editorAt [] 0 0)") (simp add: editorAt_def)
  with t f show ?thesis by simp
qed

subsection \<open>C2: collapsing a styled span\<close>

text \<open>
  C2 as stated: with the caret inside a span of the style whose neighbours complete a
  (formatting, content, formatting) triple, \<open>toggleStyle\<close> replaces the range from the start
  of the first marker to the end of the last by the content, and the caret keeps its offset
  from the start of the content, clamped so that it does not lie behind the end of the
  content. This fails for a caret inside the first marker: in \<open>a **bold** b\<close> with the
  caret between the two stars (offset 3, one before the content at 4) the caret ends at
  the start of the content (offset 0 from it), not one before it: \<open>Math.max\<close> of line 410
  clamps below as well.
\<close>

theorem C2_counterexample:
  "selType (boldDom 0) = Caret \<and> closestStyle (boldDom 0) Strong = Some 0
   \<and> sort_key posAtStart (collectRange (siblings (boldDom 0)) 0 Strong) = boldSpans
   \<and> toggleStyle noWord (boldDom 0) (editorAt ''a **bold** b'' 3 3) Strong = editorAt ''a bold b'' 2 2
   \<and> int (head (editorAt ''a bold b'' 2 2)) - 2 \<noteq> min (int (head (editorAt ''a **bold** b'' 3 3)) - 4) 4"
  by code_simp

text \<open>
  C2, amended: for a style other than comment. The line shows three elements in a row,
  \<open>f1\<close>, \<open>c\<close> and \<open>f2\<close>, each of the class of the style: a marker (\<open>cm-formatting\<close>), a
  content that is not a marker, and a marker. None of \<open>f1\<close> and \<open>c\<close> is empty, the text
  of each is as long as its extent, and they abut. The selection is a caret and the focus
  is in one of the three elements; when it is in the closing marker \<open>f2\<close>, the two elements
  behind \<open>f2\<close> are not a further content and marker of the style (lines 378 to 385 look
  at the next siblings of a marker first, and would collapse that construct instead).
  Then \<open>toggleStyle\<close> replaces exactly the range from the start of \<open>f1\<close> to the end of
  \<open>f2\<close> by the text of \<open>c\<close>, and the caret ends at its old offset from the start of the
  content, clamped into the content: not before its start and not behind its end.
\<close>

theorem C2_collapse:
  assumes caret: "selType dm = Caret" and style: "st \<noteq> Comment"
    and len: "j + 2 < length (siblings dm)"
    and f1: "siblings dm ! j = f1" and c: "siblings dm ! (j + 1) = c" and f2: "siblings dm ! (j + 2) = f2"
    and marker1: "st \<in> set (classes f1)" "formatting f1"
    and inner: "st \<in> set (classes c)" "\<not> formatting c"
    and marker2: "st \<in> set (classes f2)" "formatting f2"
    and "focus": "focus dm = Some i"
    and inside: "i = j \<or> i = j + 1
         \<or> (i = j + 2 \<and> \<not> (matchesAt (siblings dm) (j + 3) st False
                             \<and> matchesAt (siblings dm) (j + 4) st True))"
    and nonempty: "textContent f1 \<noteq> []" "textContent c \<noteq> []"
    and a1: "posAtStart f1 + length (textContent f1) = posAtStart c"
    and a2: "posAtStart c + length (textContent c) = posAtStart f2"
    and a3: "posAtStart f2 \<le> posAtEnd f2"
    and a4: "posAtEnd f2 \<le> length (doc e)"
    and a5: "head e \<le> length (doc e)"
  shows "doc (toggleStyle wa dm e st) =
           take (posAtStart f1) (doc e) @ textContent c @ drop (posAtEnd f2) (doc e)
       \<and> anchor (toggleStyle wa dm e st) = head (toggleStyle wa dm e st)
       \<and> int (head (toggleStyle wa dm e st)) - int (posAtStart f1) =
           max 0 (min (int (head e) - int (posAtStart c)) (int (length (textContent c))))"
proof -
  let ?xs = "siblings dm"
  have m0: "matchesAt ?xs j st True" using len f1 marker1 by (simp add: matchesAt_def)
  have m1: "matchesAt ?xs (j + 1) st False" using len c inner by (simp add: matchesAt_def)
  have m2: "matchesAt ?xs (j + 2) st True" using len f2 marker2 by (simp add: matchesAt_def)
  have "posAtStart f1 < posAtStart c" using a1 nonempty(1) by (cases "textContent f1") simp_all
  then have lt1: "posAtStart (?xs ! j) < posAtStart (?xs ! (j + 1))" by (simp only: f1 c)
  have "posAtStart c < posAtStart f2" using a2 nonempty(2) by (cases "textContent c") simp_all
  then have lt2: "posAtStart (?xs ! (j + 1)) < posAtStart (?xs ! (j + 2))" by (simp only: c f2)
  have "sort_key posAtStart (collectRange ?xs i st) = [?xs ! j, ?xs ! (j + 1), ?xs ! (j + 2)]"
    using m0 m1 m2 lt1 lt2 inside by (rule collectRange_finds_triple)
  then have srt: "sort_key posAtStart (collectRange ?xs i st) = [f1, c, f2]"
    by (simp only: f1 c f2)
  have "i = j \<or> i = j + 1 \<or> i = j + 2" using inside by blast
  with m0 m1 m2 "focus" have cs: "closestStyle dm st = Some i" by (rule closestStyle_in_triple)
  have t: "toggleStyle wa dm e st = collapseRange e (collectRange ?xs i st)"
    using caret cs style srt by (rule toggleStyle_collapse)
  show ?thesis
    unfolding t using collapseRange_result[OF srt a1 a2 a3 a4 a5] by simp
qed

theorem C2_collapse_witness:
  "(doc (toggleStyle noWord (boldDom 0) (editorAt ''a **bold** b'' 3 3) Strong) = ''a bold b''
    \<and> int (head (toggleStyle noWord (boldDom 0) (editorAt ''a **bold** b'' 3 3) Strong)) - 2 = 0)
   \<and> (doc (toggleStyle noWord (boldDom 1) (editorAt ''a **bold** b'' 6 6) Strong) = ''a bold b''
    \<and> int (head (toggleStyle noWord (boldDom 1) (editorAt ''a **bold** b'' 6 6) Strong)) - 2 = 2)
   \<and> (doc (toggleStyle noWord (boldDom 2) (editorAt ''a **bold** b'' 9 9) Strong) = ''a bold b''
    \<and> int (head (toggleStyle noWord (boldDom 2) (editorAt ''a **bold** b'' 9 9) Strong)) - 2 = 4)"
proof -
  let ?f1 = "boldSpans ! 0" and ?c = "boldSpans ! 1" and ?f2 = "boldSpans ! 2"
  have g: "doc (toggleStyle noWord (boldDom i) (editorAt ''a **bold** b'' h h) Strong) = ''a bold b''
       \<and> int (head (toggleStyle noWord (boldDom i) (editorAt ''a **bold** b'' h h) Strong)) - 2
           = max 0 (min (int h - 4) 4)"
    if i: "i = 0 \<or> i = 1 \<or> i = 2" and h: "h \<le> 12" for i h
  proof -
    let ?e = "editorAt ''a **bold** b'' h h"
    have h1: "selType (boldDom i) = Caret" by (simp add: boldDom_def)
    have h2: "Strong \<noteq> Comment" by simp
    have h3: "0 + 2 < length (siblings (boldDom i))" by (simp add: boldDom_def boldSpans_def)
    have s0: "siblings (boldDom i) ! 0 = ?f1" and s1: "siblings (boldDom i) ! (0 + 1) = ?c"
      and s2: "siblings (boldDom i) ! (0 + 2) = ?f2"
      by (simp_all add: boldDom_def numeral_2_eq_2)
    have o: "Strong \<in> set (classes ?f1)" "formatting ?f1" by (simp_all add: boldSpans_def)
    have m: "Strong \<in> set (classes ?c)" "\<not> formatting ?c" by (simp_all add: boldSpans_def)
    have cl: "Strong \<in> set (classes ?f2)" "formatting ?f2" by (simp_all add: boldSpans_def)
    have fo: "focus (boldDom i) = Some i" by (simp add: boldDom_def)
    have ins: "i = 0 \<or> i = 0 + 1
         \<or> (i = 0 + 2 \<and> \<not> (matchesAt (siblings (boldDom i)) (0 + 3) Strong False
                             \<and> matchesAt (siblings (boldDom i)) (0 + 4) Strong True))"
      using i by (auto simp: boldDom_def boldSpans_def matchesAt_def)
    have ne: "textContent ?f1 \<noteq> []" "textContent ?c \<noteq> []" by (simp_all add: boldSpans_def)
    have h5: "posAtStart ?f1 + length (textContent ?f1) = posAtStart ?c" by (simp add: boldSpans_def)
    have h6: "posAtStart ?c + length (textContent ?c) = posAtStart ?f2" by (simp add: boldSpans_def)
    have h7: "posAtStart ?f2 \<le> posAtEnd ?f2" by (simp add: boldSpans_def)
    have h8: "posAtEnd ?f2 \<le> length (doc ?e)" by (simp add: boldSpans_def editorAt_def)
    have h9: "head ?e \<le> length (doc ?e)" using h by (simp add: editorAt_def)
    show ?thesis
      using C2_collapse [where wa = noWord, OF h1 h2 h3 s0 s1 s2 o m cl fo ins ne h5 h6 h7 h8 h9]
      by (simp add: boldSpans_def editorAt_def)
  qed
  show ?thesis using g[of 0 3] g[of 1 6] g[of 2 9] by simp
qed

subsection \<open>C5: wrap, then collapse\<close>

text \<open>
  C5: for every style and every plain word (not empty, no blank in it) with the caret in
  it, where the focus is not in an element of the style, \<open>toggleStyle\<close> wraps the word in
  the delimiters of the style; and when the host then shows what was written as a
  construct of the style with a caret in it (\<open>rendersConstruct\<close>: the elements of the line,
  their classes, extents and texts; for the styles other than comment the focus is in the
  opening marker, in the content or in the closing marker), a second \<open>toggleStyle\<close> gives
  back the document it started from, character by character.
\<close>

theorem C5_round_trip:
  assumes "selType dm1 = Caret" and "closestStyle dm1 st = None"
    and "wa (doc e) (getCursor e) = Some (wfrom, wto)"
    and "posToOffset (doc e) wfrom < posToOffset (doc e) wto"
    and "\<forall>x \<in> set (getRange e wfrom wto). \<not> blank x"
    and "rendersConstruct dm2 st j (posToOffset (doc e) wfrom) (getRange e wfrom wto)"
  shows "doc (toggleStyle wa dm1 e st) =
           take (posToOffset (doc e) wfrom) (doc e) @ fst (delimiters st) @ getRange e wfrom wto
             @ snd (delimiters st) @ drop (posToOffset (doc e) wto) (doc e)
       \<and> doc (toggleStyle wa dm2 (toggleStyle wa dm1 e st) st) = doc e"
proof -
  let ?d = "doc e"
  let ?a = "posToOffset ?d wfrom" and ?b = "posToOffset ?d wto"
  let ?p = "fst (delimiters st)" and ?s = "snd (delimiters st)"
  let ?w = "textBetween ?d ?a ?b"
  let ?e1 = "toggleStyle wa dm1 e st"
  let ?d1 = "take ?a ?d @ ?p @ ?w @ ?s @ drop ?b ?d"
  let ?n = "?a + length ?p + length ?w + length ?s"
  let ?xs = "siblings dm2"
  have w: "getRange e wfrom wto = ?w" by (simp add: getRange_def)
  have ab: "?a \<le> ?b" using assms(4) by simp
  have ble: "?b \<le> length ?d" by (rule posToOffset_le)
  have ale: "?a \<le> length ?d" using ab ble by simp
  have wne: "0 < length ?w" using assms(4) ble by (simp add: textBetween_def)
  have e1: "?e1 = wrapWord wa e st" using assms(1,2) by (simp add: toggleStyle_def)
  have d1: "doc ?e1 = ?d1"
    unfolding e1 using doc_wrapWord[where wa = wa and e = e and st = st, OF assms(3) ab] w by simp
  have la: "length (take ?a ?d) = ?a" using ale by simp
  have len1: "length ?d1 = ?n + (length ?d - ?b)" using la by simp
  have a1: "?a \<le> length (doc ?e1)" and n1: "?n \<le> length (doc ?e1)"
    unfolding d1 len1 by simp_all
  have restored: "splice ?d1 ?a ?n ?w = ?d" using ab ble by (rule splice_wrapped)
  have r: "rendersConstruct dm2 st j ?a ?w" using assms(6) w by simp
  then have c2: "selType dm2 = Caret" by (simp add: rendersConstruct_def Let_def)
  have "doc (toggleStyle wa dm2 ?e1 st) = ?d"
  proof (cases "st = Comment")
    case True
    let ?node = "?xs ! j"
    have fo: "focus dm2 = Some j" and jl: "j < length ?xs" and cls: "st \<in> set (classes ?node)"
      and ps: "posAtStart ?node = ?a" and pe: "posAtEnd ?node = ?n"
      using r True by (simp_all add: rendersConstruct_def Let_def)
    have cs: "closestStyle dm2 st = Some j" using fo jl cls by (simp add: closestStyle_def)
    have t: "toggleStyle wa dm2 ?e1 st = collapseComment ?e1 ?node"
      using c2 cs True by (simp add: toggleStyle_def)
    have tb: "textBetween ?d1 ?a ?n = ?p @ ?w @ ?s" using ale by (rule textBetween_wrapped)
    have "?p = ''<!-- ''" "?s = '' -->''" using True by simp_all
    then have sc: "stripComment (?p @ ?w @ ?s) = ?w"
      using stripComment_wrapped[of ?w] assms(5) w by simp
    have "doc (collapseComment ?e1 ?node) = splice (doc ?e1) ?a ?n (stripComment (textBetween (doc ?e1) ?a ?n))"
      using doc_collapseComment[of ?node ?e1] a1 n1 ps pe by simp
    then show ?thesis unfolding t d1 tb sc restored .
  next
    case False
    let ?f1 = "?xs ! j" and ?c = "?xs ! (j + 1)" and ?f2 = "?xs ! (j + 2)"
    have len: "j + 2 < length ?xs"
      and s0: "showsSpan ?f1 st True ?a ?p"
      and s1: "showsSpan ?c st False (?a + length ?p) ?w"
      and s2: "showsSpan ?f2 st True (?a + length ?p + length ?w) ?s"
      and fc: "focus dm2 = Some j \<or> focus dm2 = Some (j + 1)
         \<or> (focus dm2 = Some (j + 2)
             \<and> \<not> (matchesAt ?xs (j + 3) st False \<and> matchesAt ?xs (j + 4) st True))"
      using r False by (simp_all add: rendersConstruct_def Let_def)
    from fc obtain i where fo: "focus dm2 = Some i"
      and ins: "i = j \<or> i = j + 1
         \<or> (i = j + 2 \<and> \<not> (matchesAt ?xs (j + 3) st False \<and> matchesAt ?xs (j + 4) st True))"
      by blast
    have m0: "matchesAt ?xs j st True" using len s0 by (simp add: matchesAt_def showsSpan_def)
    have m1: "matchesAt ?xs (j + 1) st False" using len s1 by (simp add: matchesAt_def showsSpan_def)
    have m2: "matchesAt ?xs (j + 2) st True" using len s2 by (simp add: matchesAt_def showsSpan_def)
    have "0 < length ?p" using delimiters_nonempty[of st] by simp
    then have lt1: "posAtStart ?f1 < posAtStart ?c" using s0 s1 by (simp add: showsSpan_def)
    have lt2: "posAtStart ?c < posAtStart ?f2" using s1 s2 wne by (simp add: showsSpan_def)
    let ?rng = "collectRange ?xs i st"
    have srt: "sort_key posAtStart ?rng = [?f1, ?c, ?f2]"
      using m0 m1 m2 lt1 lt2 ins by (rule collectRange_finds_triple)
    have "i = j \<or> i = j + 1 \<or> i = j + 2" using ins by blast
    with m0 m1 m2 fo have cs: "closestStyle dm2 st = Some i" by (rule closestStyle_in_triple)
    have ps: "posAtStart ?f1 = ?a" using s0 by (simp add: showsSpan_def)
    have pe: "posAtEnd ?f2 = ?n" using s2 by (simp add: showsSpan_def)
    have tc: "textContent ?c = ?w" using s1 by (simp add: showsSpan_def)
    have t: "toggleStyle wa dm2 ?e1 st = collapseRange ?e1 ?rng"
      using c2 cs False srt by (rule toggleStyle_collapse)
    have "doc (collapseRange ?e1 ?rng) = splice (doc ?e1) ?a ?n ?w"
      using doc_collapseRange[OF srt, of ?e1] a1 n1 ps pe tc by simp
    then show ?thesis unfolding t d1 restored .
  qed
  then show ?thesis using d1 w by simp
qed

theorem C5_round_trip_witness:
  "(doc (toggleStyle (wordBetween 2 6) plainCaret (editorAt ''a bold b'' 3 3) Strong) = ''a **bold** b''
    \<and> doc (toggleStyle (wordBetween 2 6) (boldDom 1)
             (toggleStyle (wordBetween 2 6) plainCaret (editorAt ''a bold b'' 3 3) Strong) Strong)
        = ''a bold b''
    \<and> doc (toggleStyle (wordBetween 2 6) (boldDom 2)
             (toggleStyle (wordBetween 2 6) plainCaret (editorAt ''a bold b'' 3 3) Strong) Strong)
        = ''a bold b'')
   \<and> (doc (toggleStyle (wordBetween 2 6) plainCaret (editorAt ''a bold b'' 3 3) Comment)
        = ''a <!-- bold --> b''
    \<and> doc (toggleStyle (wordBetween 2 6) commentDom
             (toggleStyle (wordBetween 2 6) plainCaret (editorAt ''a bold b'' 3 3) Comment) Comment)
        = ''a bold b'')"
proof -
  let ?e = "editorAt ''a bold b'' 3 3"
  let ?wf = "offsetToPos ''a bold b'' 2" and ?wt = "offsetToPos ''a bold b'' 6"
  have o: "posToOffset ''a bold b'' ?wf = 2" "posToOffset ''a bold b'' ?wt = 6"
    by (simp_all add: posToOffset_offsetToPos)
  have g: "getRange ?e ?wf ?wt = ''bold''"
    by (simp add: getRange_def editorAt_def o textBetween_def)
  have de: "doc ?e = ''a bold b''" by (simp add: editorAt_def)
  have h1: "selType plainCaret = Caret" by (simp add: plainCaret_def)
  have h2: "closestStyle plainCaret st = None" for st by (simp add: plainCaret_def closestStyle_def)
  have h3: "wordBetween 2 6 (doc ?e) (getCursor ?e) = Some (?wf, ?wt)"
    by (simp add: wordBetween_def editorAt_def)
  have h4: "posToOffset (doc ?e) ?wf < posToOffset (doc ?e) ?wt" by (simp add: editorAt_def o)
  have h5: "\<forall>x \<in> set (getRange ?e ?wf ?wt). \<not> blank x" by (simp add: g blank_def)
  have h6: "rendersConstruct (boldDom i) Strong 0 (posToOffset (doc ?e) ?wf) (getRange ?e ?wf ?wt)"
    if "i = 1 \<or> i = 2" for i
    using that
    by (auto simp: g de o rendersConstruct_def showsSpan_def boldDom_def boldSpans_def matchesAt_def)
  have h7: "rendersConstruct commentDom Comment 0 (posToOffset (doc ?e) ?wf) (getRange ?e ?wf ?wt)"
    by (simp add: g de o rendersConstruct_def commentDom_def)
  show ?thesis
    using C5_round_trip [where wa = "wordBetween 2 6" and e = ?e, OF h1 h2 h3 h4 h5 h6, of 1]
      C5_round_trip [where wa = "wordBetween 2 6" and e = ?e, OF h1 h2 h3 h4 h5 h6, of 2]
      C5_round_trip [where wa = "wordBetween 2 6" and e = ?e, OF h1 h2 h3 h4 h5 h7]
    by (simp add: g de o)
qed

subsection \<open>C7: \<open>toggleTag\<close> without a pair of tags around the caret\<close>

text \<open>
  C7: for a tag name of letters and digits, which stands for itself in the two patterns
  (such as \<open>u\<close>, the name \<open>toggleTag\<close> is called with): when, in each of the two ways
  \<open>toggleTag\<close> cuts the line at the caret, the scan for the opening tag or the scan for the
  closing tag finds nothing, nothing is collapsed: the document gets the opening and the
  closing tag around the selection when something is selected, around the word at the
  caret when there is one, and at the caret otherwise.
\<close>

theorem C7_no_collapse_wraps:
  assumes "plainTagName tg"
    and "pos = getCursor e" and "s = getLine (doc e) (line pos)"
    and "execTagOpen tg (jsSlice s 0 (ch pos + int (length tg) + 1)) = None
           \<or> execTagClose tg (jsSliceFrom s (ch pos + int (length tg) + 1)) = None"
    and "execTagOpen tg (jsSlice s 0 (ch pos - int (length tg) - 1)) = None
           \<or> execTagClose tg (jsSliceFrom s (ch pos - int (length tg) - 1)) = None"
    and "anchor e \<le> length (doc e)" and "head e \<le> length (doc e)"
  shows "(somethingSelected e \<longrightarrow>
            doc (toggleTag wa e tg) =
              take (min (anchor e) (head e)) (doc e) @ openTag tg @ getSelection e @ closeTag tg
                @ drop (max (anchor e) (head e)) (doc e))
       \<and> (\<not> somethingSelected e \<longrightarrow>
            (case wa (doc e) pos of
               Some (wfrom, wto) \<Rightarrow>
                 doc (toggleTag wa e tg) =
                   take (posToOffset (doc e) wfrom) (doc e) @ openTag tg @ getRange e wfrom wto
                     @ closeTag tg
                     @ drop (max (posToOffset (doc e) wfrom) (posToOffset (doc e) wto)) (doc e)
             | None \<Rightarrow>
                 doc (toggleTag wa e tg) =
                   take (head e) (doc e) @ openTag tg @ closeTag tg @ drop (head e) (doc e)))"
proof -
  have t: "doc (toggleTag wa e tg) = doc (fst (wrapSelection (openTag tg) (closeTag tg) wa e))"
    using assms(4,5) unfolding assms(2,3) by (rule toggleTag_wrap)
  show ?thesis
  proof (intro conjI impI)
    assume "somethingSelected e"
    then show "doc (toggleTag wa e tg) =
              take (min (anchor e) (head e)) (doc e) @ openTag tg @ getSelection e @ closeTag tg
                @ drop (max (anchor e) (head e)) (doc e)"
      unfolding t using assms(6,7) by (rule doc_wrapSelection_selected)
  next
    assume ns: "\<not> somethingSelected e"
    show "case wa (doc e) pos of
               Some (wfrom, wto) \<Rightarrow>
                 doc (toggleTag wa e tg) =
                   take (posToOffset (doc e) wfrom) (doc e) @ openTag tg @ getRange e wfrom wto
                     @ closeTag tg
                     @ drop (max (posToOffset (doc e) wfrom) (posToOffset (doc e) wto)) (doc e)
             | None \<Rightarrow>
                 doc (toggleTag wa e tg) =
                   take (head e) (doc e) @ openTag tg @ closeTag tg @ drop (head e) (doc e)"
    proof (cases "wa (doc e) pos")
      case None
      have "anchor e = head e" using ns by (simp add: somethingSelected_def)
      then have "wrapSelection (openTag tg) (closeTag tg) wa e =
           (\<lparr> doc = take (head e) (doc e) @ openTag tg @ closeTag tg @ drop (head e) (doc e),
              anchor = head e, head = head e \<rparr>,
            Some ((getCursor e)\<lparr> ch := ch (getCursor e) + int (length (openTag tg)) \<rparr>,
                  (getCursor e)\<lparr> ch := ch (getCursor e) + int (length (openTag tg)) \<rparr>))"
        using assms(7) None unfolding assms(2) by (intro wrapSelection_no_word)
      then show ?thesis using None by (simp add: t)
    next
      case (Some w)
      obtain wfrom wto where w: "w = (wfrom, wto)" by (cases w)
      have "doc (fst (wrapSelection (openTag tg) (closeTag tg) wa e)) =
           take (posToOffset (doc e) wfrom) (doc e) @ openTag tg @ getRange e wfrom wto @ closeTag tg
             @ drop (max (posToOffset (doc e) wfrom) (posToOffset (doc e) wto)) (doc e)"
        using ns Some w unfolding assms(2) by (intro doc_wrapSelection_word) simp_all
      then show ?thesis using Some w by (simp add: t)
    qed
  qed
qed

theorem C7_no_collapse_wraps_witness:
  "doc (toggleTag (wordBetween 2 5) (editorAt ''a foo b'' 3 3) ''u'') = ''a <u>foo</u> b''
   \<and> doc (toggleTag noWord (editorAt ''ab cd'' 1 4) ''u'') = ''a<u>b c</u>d''"
proof -
  let ?e = "editorAt ''a foo b'' 3 3" and ?p = "\<lparr> line = 0, ch = 3 \<rparr>"
  let ?e2 = "editorAt ''ab cd'' 1 4" and ?p2 = "\<lparr> line = 0, ch = 4 \<rparr>"
  have a0: "plainTagName ''u''" by (simp add: plainTagName_def)
  have a1: "?p = getCursor ?e" by code_simp
  have a2: "''a foo b'' = getLine (doc ?e) (line ?p)" by code_simp
  have a3: "execTagOpen ''u'' (jsSlice ''a foo b'' 0 (ch ?p + int (length ''u'') + 1)) = None
      \<or> execTagClose ''u'' (jsSliceFrom ''a foo b'' (ch ?p + int (length ''u'') + 1)) = None"
    by code_simp
  have a4: "execTagOpen ''u'' (jsSlice ''a foo b'' 0 (ch ?p - int (length ''u'') - 1)) = None
      \<or> execTagClose ''u'' (jsSliceFrom ''a foo b'' (ch ?p - int (length ''u'') - 1)) = None"
    by code_simp
  have a5: "anchor ?e \<le> length (doc ?e)" and a6: "head ?e \<le> length (doc ?e)"
    by (simp_all add: editorAt_def)
  have a7: "\<not> somethingSelected ?e" by (simp add: somethingSelected_def editorAt_def)
  have a8: "wordBetween 2 5 (doc ?e) ?p = Some (offsetToPos ''a foo b'' 2, offsetToPos ''a foo b'' 5)"
    by (simp add: wordBetween_def editorAt_def)
  note i1 = C7_no_collapse_wraps [where wa = "wordBetween 2 5", OF a0 a1 a2 a3 a4 a5 a6]
  from i1 [THEN conjunct2] a7 have "case wordBetween 2 5 (doc ?e) ?p of
       Some (wfrom, wto) \<Rightarrow>
         doc (toggleTag (wordBetween 2 5) ?e ''u'') =
           take (posToOffset (doc ?e) wfrom) (doc ?e) @ openTag ''u'' @ getRange ?e wfrom wto
             @ closeTag ''u'' @ drop (max (posToOffset (doc ?e) wfrom) (posToOffset (doc ?e) wto)) (doc ?e)
     | None \<Rightarrow>
         doc (toggleTag (wordBetween 2 5) ?e ''u'') =
           take (head ?e) (doc ?e) @ openTag ''u'' @ closeTag ''u'' @ drop (head ?e) (doc ?e)"
    by (rule mp)
  then have r1: "doc (toggleTag (wordBetween 2 5) ?e ''u'') =
       take (posToOffset (doc ?e) (offsetToPos ''a foo b'' 2)) (doc ?e) @ openTag ''u''
         @ getRange ?e (offsetToPos ''a foo b'' 2) (offsetToPos ''a foo b'' 5) @ closeTag ''u''
         @ drop (max (posToOffset (doc ?e) (offsetToPos ''a foo b'' 2))
                     (posToOffset (doc ?e) (offsetToPos ''a foo b'' 5))) (doc ?e)"
    by (simp only: a8 option.case prod.case)
  have v1: "take (posToOffset (doc ?e) (offsetToPos ''a foo b'' 2)) (doc ?e) @ openTag ''u''
         @ getRange ?e (offsetToPos ''a foo b'' 2) (offsetToPos ''a foo b'' 5) @ closeTag ''u''
         @ drop (max (posToOffset (doc ?e) (offsetToPos ''a foo b'' 2))
                     (posToOffset (doc ?e) (offsetToPos ''a foo b'' 5))) (doc ?e) = ''a <u>foo</u> b''"
    by code_simp
  have b1: "?p2 = getCursor ?e2" by code_simp
  have b2: "''ab cd'' = getLine (doc ?e2) (line ?p2)" by code_simp
  have b3: "execTagOpen ''u'' (jsSlice ''ab cd'' 0 (ch ?p2 + int (length ''u'') + 1)) = None
      \<or> execTagClose ''u'' (jsSliceFrom ''ab cd'' (ch ?p2 + int (length ''u'') + 1)) = None"
    by code_simp
  have b4: "execTagOpen ''u'' (jsSlice ''ab cd'' 0 (ch ?p2 - int (length ''u'') - 1)) = None
      \<or> execTagClose ''u'' (jsSliceFrom ''ab cd'' (ch ?p2 - int (length ''u'') - 1)) = None"
    by code_simp
  have b5: "anchor ?e2 \<le> length (doc ?e2)" and b6: "head ?e2 \<le> length (doc ?e2)"
    by (simp_all add: editorAt_def)
  have b7: "somethingSelected ?e2" by (simp add: somethingSelected_def editorAt_def)
  note i2 = C7_no_collapse_wraps [where wa = noWord, OF a0 b1 b2 b3 b4 b5 b6]
  from i2 [THEN conjunct1] b7 have r2: "doc (toggleTag noWord ?e2 ''u'') =
       take (min (anchor ?e2) (head ?e2)) (doc ?e2) @ openTag ''u'' @ getSelection ?e2 @ closeTag ''u''
         @ drop (max (anchor ?e2) (head ?e2)) (doc ?e2)"
    by (rule mp)
  have v2: "take (min (anchor ?e2) (head ?e2)) (doc ?e2) @ openTag ''u'' @ getSelection ?e2 @ closeTag ''u''
         @ drop (max (anchor ?e2) (head ?e2)) (doc ?e2) = ''a<u>b c</u>d''"
    by code_simp
  from r1 v1 r2 v2 show ?thesis by (simp only:)
qed

subsection \<open>C6: collapsing a markdown link\<close>

text \<open>
  C6 says that \<open>toggleLink\<close> replaces the first match of \<open>[text](url)\<close> that holds the
  caret by its text and leaves the caret within the text that remains. The replacement is
  as claimed (\<open>toggleLink_on_match\<close>, \<open>scanLinks_holds_cursor\<close>), and so is the caret when
  the text is not empty (\<open>linkCaret_in_text\<close>). With an empty text the first branch of
  lines 465 to 471 sets the column to one before the start of the match
  (\<open>linkCaret_empty_text\<close>): in the line \<open>ab[](u)\<close> with the caret in the URL (column 5) the
  match starts at column 2, the line becomes \<open>ab\<close>, and the caret ends at column 1,
  between \<open>a\<close> and \<open>b\<close>.
\<close>

theorem C6_empty_text_caret:
  "scanLinks ''ab[](u)'' 0 5 = Some (2, [], 5)
   \<and> toggleLink noWord linkCaretDom (editorAt ''ab[](u)'' 5 5) = Edited (editorAt ''ab'' 1 1)"
  by code_simp

end
